theory Spec2Isabelle
  imports Complex_Main
begin

section \<open>Python strings and the decimal rendering of a counter\<close>

text \<open>
  The import script builds every scene name by string concatenation. A Python string is a
  \<^typ>\<open>string\<close>; \<^verbatim>\<open>str(cnt)\<close> of a non-negative integer is its decimal rendering
  without leading zeros.
\<close>

definition digit_char :: "nat \<Rightarrow> char" where
  "digit_char d = ''0123456789'' ! d"

fun str :: "nat \<Rightarrow> string" where
  "str n = (if n < 10 then [digit_char n] else str (n div 10) @ [digit_char (n mod 10)])"

declare str.simps [simp del]

section \<open>Label resolution and de-duplication\<close>

text \<open>
  \<^verbatim>\<open>increment_labels(labels)\<close> (maya_trc.py, lines 109-122). The host query
  \<^verbatim>\<open>cmds.ls(type='transform')\<close> is the argument \<open>objs\<close>. The \<^verbatim>\<open>for\<close> loop over the
  labels is \<open>increment_labels_loop\<close>, carrying the counter.
\<close>

fun increment_labels_loop :: "string list \<Rightarrow> string list \<Rightarrow> nat \<Rightarrow> nat" where
  "increment_labels_loop objs [] cnt = cnt"
| "increment_labels_loop objs (l # ls) cnt =
     (if l @ str cnt \<in> set objs \<or> l @ ''J'' @ str cnt \<in> set objs
      then increment_labels_loop objs ls (cnt + 1)
      else increment_labels_loop objs ls cnt)"

definition increment_labels :: "string list \<Rightarrow> string list \<Rightarrow> string \<times> string list" where
  "increment_labels objs labels =
     (let cnt = increment_labels_loop objs labels 1;
          str_cnt = str cnt;
          labels_cnt = map (\<lambda>l. l @ str_cnt) labels
      in (str_cnt, labels_cnt))"

section \<open>Errors and the trajectory table\<close>

text \<open>
  The exceptions the import can end with. \<open>KeyError\<close> and \<open>IndexError\<close> come from the
  table lookups, \<open>EmptyDataError\<close>, \<open>ParserError\<close> and \<open>ValueError\<close> from
  \<^verbatim>\<open>pandas.read_csv\<close>, \<open>AttributeError\<close> from reading the parent of a node that has
  none, and \<open>TypeError\<close> stands for a lookup that did not yield one number.
\<close>

datatype error =
    KeyError | IndexError | TypeError | AttributeError
  | EmptyDataError | ParserError | ValueError

text \<open>
  A data frame with the default row index \<open>0, 1, 2, ...\<close>: the column labels and the
  rows, every row holding one cell per column. The parser produces cells of field text,
  the placement engines read numbers; float rounding is not modelled, a number is a
  \<^typ>\<open>real\<close>.
\<close>

record 'a table =
  columns :: "string list"
  rows :: "'a list list"

fun column_index :: "string list \<Rightarrow> string \<Rightarrow> nat option" where
  "column_index [] c = None"
| "column_index (x # xs) c = (if x = c then Some 0 else map_option Suc (column_index xs c))"

text \<open>
  \<^verbatim>\<open>data.iloc[i, k]\<close> with non-negative positions: out of range is an IndexError.
\<close>

definition iloc :: "'a table \<Rightarrow> nat \<Rightarrow> nat \<Rightarrow> error + 'a" where
  "iloc data i k =
     (if i < length (rows data) \<and> k < length (columns data) \<and> k < length (rows data ! i)
      then Inr (rows data ! i ! k) else Inl IndexError)"

text \<open>
  \<^verbatim>\<open>data.loc[i, c]\<close>: row label \<open>i\<close> of the default index and column label \<open>c\<close>. An
  absent label is a KeyError. A label carried by several columns selects a Series, not a
  number; the model ends such a lookup with \<open>TypeError\<close>.
\<close>

definition loc :: "'a table \<Rightarrow> nat \<Rightarrow> string \<Rightarrow> error + 'a" where
  "loc data i c =
     (if i < length (rows data) then
        (case column_index (columns data) c of
           None \<Rightarrow> Inl KeyError
         | Some k \<Rightarrow>
             if count_list (columns data) c = 1 then iloc data i k else Inl TypeError)
      else Inl KeyError)"

section \<open>Host calls and runs\<close>

text \<open>
  The scene is changed only through calls of the host (\<^verbatim>\<open>maya.cmds\<close>). A run of an engine
  is the list of calls it issued, in order, and the exception that ended it, if any.
\<close>

datatype attr = translateX | translateY | translateZ

datatype event =
    SelectNone
  | Select string
  | SelectHierarchy string
  | Joint string
  | Move real real real string
  | SetKeyframe string nat
  | OrientParentOf string
  | PolySphere string
  | Instance string string
  | SetKeyframeAttr string nat attr real

type_synonym run = "event list \<times> error option"

definition then_run :: "run \<Rightarrow> run \<Rightarrow> run" where
  "then_run a b = (case snd a of None \<Rightarrow> (fst a @ fst b, snd b) | Some e \<Rightarrow> a)"

section \<open>Skeleton topology\<close>

datatype joint_node = Node (name: string) (children: "joint_node list")

text \<open>The module constant \<^verbatim>\<open>root\<close> (maya_trc.py, lines 49-85).\<close>

definition root :: joint_node where
  "root = Node ''CHipJ'' [
     Node ''RHipJ'' [
       Node ''RKneeJ'' [
         Node ''RAnkleJ'' [
           Node ''RBigToeJ'' [
             Node ''RSmallToeJ'' []],
           Node ''RHeelJ'' []]]],
     Node ''LHipJ'' [
       Node ''LKneeJ'' [
         Node ''LAnkleJ'' [
           Node ''LBigToeJ'' [
             Node ''LSmallToeJ'' []],
           Node ''LHeelJ'' []]]],
     Node ''NeckJ'' [
       Node ''HeadJ'' [
         Node ''NoseJ'' []],
       Node ''RShoulderJ'' [
         Node ''RElbowJ'' [
           Node ''RWristJ'' []]],
       Node ''LShoulderJ'' [
         Node ''LElbowJ'' [
           Node ''LWristJ'' []]]]]"

text \<open>
  \<^verbatim>\<open>RenderTree(root)\<close> walks the tree in pre-order; each entry is the node's name with
  the name of \<^verbatim>\<open>node.parent\<close> (\<open>None\<close> at the top).
\<close>

fun render_tree :: "string option \<Rightarrow> joint_node \<Rightarrow> (string option \<times> string) list" where
  "render_tree p (Node n cs) = (p, n) # concat (map (render_tree (Some n)) cs)"

section \<open>Skeleton reconstruction engine\<close>

text \<open>
  \<^verbatim>\<open>set_skeleton(data, str_cnt, numFrames)\<close> (maya_trc.py, lines 164-197).
  Joint creation, lines 170-176: the body of the loop over \<^verbatim>\<open>RenderTree(root)\<close> is
  \<open>create_joint\<close>.
\<close>

definition create_joint :: "string \<Rightarrow> string option \<times> string \<Rightarrow> run" where
  "create_joint str_cnt pn =
     (if snd pn \<noteq> name root then
        (case fst pn of
           None \<Rightarrow> ([], Some AttributeError)
         | Some parent \<Rightarrow> ([Select (parent @ str_cnt), Joint (snd pn @ str_cnt)], None))
      else ([], None))"

fun create_loop :: "string \<Rightarrow> (string option \<times> string) list \<Rightarrow> run" where
  "create_loop str_cnt [] = ([], None)"
| "create_loop str_cnt (pn # pns) = then_run (create_joint str_cnt pn) (create_loop str_cnt pns)"

definition create_joints :: "string \<Rightarrow> run" where
  "create_joints str_cnt =
     then_run ([SelectNone, Joint (name root @ str_cnt)], None)
       (then_run (create_loop str_cnt (render_tree None root))
          ([SelectHierarchy (''CHipJ'' @ str_cnt)], None))"

text \<open>
  \<^verbatim>\<open>jointsJ = cmds.ls(sl=1)\<close> after the hierarchy under the root joint has been selected:
  the host answers with the joints just created, the root first and every joint before
  its children, that is, in the pre-order of the topology.
\<close>

definition jointsJ :: "string \<Rightarrow> string list" where
  "jointsJ str_cnt = map (\<lambda>pn. snd pn @ str_cnt) (render_tree None root)"

text \<open>\<^verbatim>\<open>re.sub(r'[0-9]', '', s)\<close>: every ASCII digit is deleted.\<close>

definition re_sub_digits :: "string \<Rightarrow> string" where
  "re_sub_digits s = filter (\<lambda>c. c \<notin> set ''0123456789'') s"

text \<open>Line 188: \<^verbatim>\<open>jnt = re.sub(r'[0-9]', '', jointsJ[j])[:-1]\<close>.\<close>

definition jnt_of :: "string \<Rightarrow> string" where
  "jnt_of joint = butlast (re_sub_digits joint)"

text \<open>
  Lines 184-186: \<^verbatim>\<open>np.add(data.loc[i, c1], data.loc[i, c2]) / 2\<close>, the first lookup
  evaluated first.
\<close>

definition hip_mid :: "real table \<Rightarrow> nat \<Rightarrow> string \<Rightarrow> string \<Rightarrow> error + real" where
  "hip_mid data i c1 c2 =
     (case loc data i c1 of
        Inl e \<Rightarrow> Inl e
      | Inr a \<Rightarrow> (case loc data i c2 of Inl e \<Rightarrow> Inl e | Inr b \<Rightarrow> Inr ((a + b) / 2)))"

text \<open>Three values computed one after the other; the first exception wins.\<close>

definition coord3 :: "error + real \<Rightarrow> error + real \<Rightarrow> error + real \<Rightarrow> error + real \<times> real \<times> real" where
  "coord3 cx cy cz =
     (case cx of
        Inl e \<Rightarrow> Inl e
      | Inr x \<Rightarrow>
          (case cy of
             Inl e \<Rightarrow> Inl e
           | Inr y \<Rightarrow> (case cz of Inl e \<Rightarrow> Inl e | Inr z \<Rightarrow> Inr (x, y, z))))"

text \<open>
  Lines 182-191: the coordinate of joint \<open>j\<close> (its handle is \<open>joint\<close>) at frame \<open>i\<close>, as
  \<open>(jointCoordX, jointCoordY, jointCoordZ)\<close>.
\<close>

definition joint_coord :: "real table \<Rightarrow> nat \<Rightarrow> nat \<Rightarrow> string \<Rightarrow> error + real \<times> real \<times> real" where
  "joint_coord data i j joint =
     (if j = 0 \<and> butlast (name root) \<notin> set (columns data) then
        (let RHip = butlast (name (children root ! 0));
             LHip = butlast (name (children root ! 1))
         in coord3 (hip_mid data i (RHip @ ''_Z'') (LHip @ ''_Z''))
                   (hip_mid data i (RHip @ ''_X'') (LHip @ ''_X''))
                   (hip_mid data i (RHip @ ''_Y'') (LHip @ ''_Y'')))
      else
        (let jnt = jnt_of joint
         in coord3 (loc data i (jnt @ ''_Z''))
                   (loc data i (jnt @ ''_X''))
                   (loc data i (jnt @ ''_Y''))))"

text \<open>
  Lines 181-193, the loop \<^verbatim>\<open>for j in range(len(jointsJ))\<close>: \<open>j\<close> is the index of the
  first joint of the list still to be placed.
\<close>

fun place_joints :: "real table \<Rightarrow> nat \<Rightarrow> nat \<Rightarrow> string list \<Rightarrow> run" where
  "place_joints data i j [] = ([], None)"
| "place_joints data i j (joint # joints) =
     (case joint_coord data i j joint of
        Inl e \<Rightarrow> ([], Some e)
      | Inr (x, y, z) \<Rightarrow>
          then_run ([Move x y z joint, SetKeyframe joint i], None)
            (place_joints data i (Suc j) joints))"

text \<open>
  Lines 195-197, the loop \<^verbatim>\<open>for j in range(1, len(jointsJ))\<close>: the parent of joint \<open>j\<close>
  is asked from the host and oriented, then joint \<open>j\<close> is keyframed.
\<close>

definition orient_joints :: "nat \<Rightarrow> string list \<Rightarrow> event list" where
  "orient_joints i joints =
     concat (map (\<lambda>joint. [OrientParentOf joint, SetKeyframe joint i]) (tl joints))"

text \<open>
  Lines 180-197, the loop \<^verbatim>\<open>for i in range(numFrames)\<close>: \<open>i\<close> is the current frame and
  the last argument the number of frames still to do.
\<close>

fun frames_loop :: "real table \<Rightarrow> string list \<Rightarrow> nat \<Rightarrow> nat \<Rightarrow> run" where
  "frames_loop data joints i 0 = ([], None)"
| "frames_loop data joints i (Suc k) =
     then_run
       (then_run (place_joints data i 0 joints)
          (if i = 0 then (orient_joints i joints, None) else ([], None)))
       (frames_loop data joints (Suc i) k)"

definition set_skeleton :: "real table \<Rightarrow> string \<Rightarrow> nat \<Rightarrow> run" where
  "set_skeleton data str_cnt numFrames =
     then_run (create_joints str_cnt) (frames_loop data (jointsJ str_cnt) 0 numFrames)"

section \<open>Marker placement engine\<close>






section \<open>Trajectory table parser\<close>

text \<open>
  \<^verbatim>\<open>df_from_trc(trc_path)\<close> (maya_trc.py, lines 89-106) reads the file three times with
  \<^verbatim>\<open>pandas.read_csv(sep="\t", ...)\<close>. The file is given by its lines, each line by its
  tab-separated fields; a blank line is the empty list of fields. What follows describes
  \<^verbatim>\<open>read_csv\<close> for the three option sets the function uses: \<^verbatim>\<open>skiprows=k\<close> drops the
  first \<open>k\<close> lines of the file whatever they hold, blank lines among the remaining ones are
  ignored, a field missing at the end of a row is read as empty (NaN), and a row with more
  fields than the parser expects is a ParserError.
\<close>

type_synonym trc_file = "string list list"

definition lines_after :: "nat \<Rightarrow> trc_file \<Rightarrow> string list list" where
  "lines_after skiprows f = filter (\<lambda>l. l \<noteq> []) (drop skiprows f)"

definition pad_row :: "nat \<Rightarrow> string list \<Rightarrow> string list" where
  "pad_row w r = take w (r @ replicate w [])"

text \<open>
  Line 94: \<^verbatim>\<open>read_csv(skiprows=1, header=None, nrows=2)\<close>. The first row read fixes the
  width.
\<close>

definition read_df_header :: "trc_file \<Rightarrow> error + string list list" where
  "read_df_header f =
     (case take 2 (lines_after 1 f) of
        [] \<Rightarrow> Inl EmptyDataError
      | [r0] \<Rightarrow> Inr [r0]
      | r0 # r1 # _ \<Rightarrow>
          if length r0 < length r1 then Inl ParserError
          else Inr [r0, pad_row (length r0) r1])"

text \<open>
  Line 95: \<^verbatim>\<open>dict(zip(df_header.iloc[0].tolist(), df_header.iloc[1].tolist()))\<close>, kept as
  the list of key-value pairs handed to \<^verbatim>\<open>dict\<close>.
\<close>

definition header_of :: "string list list \<Rightarrow> error + (string \<times> string) list" where
  "header_of df_header =
     (case df_header of
        r0 # r1 # _ \<Rightarrow> Inr (zip r0 r1)
      | _ \<Rightarrow> Inl IndexError)"

text \<open>
  The column names \<^verbatim>\<open>read_csv\<close> infers from a header row (pandas 1.x, C parser): a
  blank cell in position \<open>i\<close> is named \<^verbatim>\<open>Unnamed: i\<close>, and a name seen before gets
  \<^verbatim>\<open>.1\<close>, \<^verbatim>\<open>.2\<close>, ... appended until it is new. \<open>counts\<close> is the dictionary of the
  names seen so far.
\<close>

fun counts_get :: "(string \<times> nat) list \<Rightarrow> string \<Rightarrow> nat" where
  "counts_get [] k = 0"
| "counts_get ((k', v) # d) k = (if k' = k then v else counts_get d k)"

fun counts_set :: "(string \<times> nat) list \<Rightarrow> string \<Rightarrow> nat \<Rightarrow> (string \<times> nat) list" where
  "counts_set [] k v = [(k, v)]"
| "counts_set ((k', v') # d) k v =
     (if k' = k then (k, v) # d else (k', v') # counts_set d k v)"

text \<open>
  The loop \<^verbatim>\<open>while count > 0: counts[name] = count + 1; name = f'{name}.{count}';
  count = counts.get(name, 0)\<close>, where \<open>count\<close> is \<^verbatim>\<open>counts.get(name, 0)\<close> whenever the
  loop test is evaluated.
\<close>

function mangle_while :: "(string \<times> nat) list \<Rightarrow> string \<Rightarrow> (string \<times> nat) list \<times> string" where
  "mangle_while counts nm =
     (let count = counts_get counts nm
      in if 0 < count
         then mangle_while (counts_set counts nm (count + 1)) (nm @ ''.'' @ str count)
         else (counts, nm))"
  by pat_completeness auto
termination
proof (relation "measure (\<lambda>(counts, nm). length (filter (\<lambda>k. length nm \<le> length k) (map fst counts)))")
  show "wf (measure (\<lambda>(counts, nm). length (filter (\<lambda>k. length nm \<le> length k) (map fst counts))))"
    by simp
next
  fix counts :: "(string \<times> nat) list" and nm :: string and count :: nat
  assume c: "count = counts_get counts nm" and pos: "0 < count"
  let ?nm' = "nm @ ''.'' @ str count"
  let ?old = "\<lambda>k :: string. length nm \<le> length k"
  let ?new = "\<lambda>k :: string. length ?nm' \<le> length k"
  have "0 < counts_get d nm \<Longrightarrow> nm \<in> set (map fst d)" for d
    by (induction d) (auto split: if_splits)
  then have key: "nm \<in> set (map fst counts)" using c pos by simp
  have "nm \<in> set (map fst d) \<Longrightarrow> map fst (counts_set d nm v) = map fst d" for d v
  proof (induction d)
    case Nil
    then show ?case by simp
  next
    case (Cons p d)
    then show ?case by (cases p) force
  qed
  then have keys: "map fst (counts_set counts nm (count + 1)) = map fst counts"
    using key by simp
  have mono: "length (filter ?new ks) \<le> length (filter ?old ks)" for ks
    by (induction ks) auto
  have less: "nm \<in> set ks \<Longrightarrow> length (filter ?new ks) < length (filter ?old ks)" for ks
  proof (induction ks)
    case Nil
    then show ?case by simp
  next
    case (Cons k ks)
    show ?case
    proof (cases "nm = k")
      case True
      with mono [of ks] show ?thesis by simp
    next
      case False
      with Cons have "length (filter ?new ks) < length (filter ?old ks)" by simp
      then show ?thesis by auto
    qed
  qed
  have "length (filter ?new (map fst counts)) < length (filter ?old (map fst counts))"
    using key by (rule less)
  then show "((counts_set counts nm (count + 1), nm @ ''.'' @ str count), (counts, nm))
        \<in> measure (\<lambda>(counts, nm). length (filter (\<lambda>k. length nm \<le> length k) (map fst counts)))"
    by (simp only: in_measure prod.case keys)
qed

declare mangle_while.simps [simp del]

fun header_loop :: "(string \<times> nat) list \<Rightarrow> nat \<Rightarrow> string list \<Rightarrow> string list" where
  "header_loop counts i [] = []"
| "header_loop counts i (word # ws) =
     (let nm = (if word = [] then ''Unnamed: '' @ str i else word);
          (counts', nm') = mangle_while counts nm
      in nm' # header_loop (counts_set counts' nm' 1) (Suc i) ws)"

definition header_names :: "string list \<Rightarrow> string list" where
  "header_names h = header_loop [] 0 h"

text \<open>
  Line 98: \<^verbatim>\<open>read_csv(skiprows=3, nrows=1)\<close>; only \<^verbatim>\<open>df_lab.columns\<close> is used. The first
  line left is the header row.
\<close>

definition read_df_lab_columns :: "trc_file \<Rightarrow> error + string list" where
  "read_df_lab_columns f =
     (case lines_after 3 f of
        [] \<Rightarrow> Inl EmptyDataError
      | h # _ \<Rightarrow> Inr (header_names h))"

text \<open>The slice \<^verbatim>\<open>xs[::3]\<close>: elements 0, 3, 6, ...\<close>

fun every3 :: "'a list \<Rightarrow> 'a list" where
  "every3 [] = []"
| "every3 (x # xs) = x # every3 (drop 2 xs)"

text \<open>Line 100: \<^verbatim>\<open>[[l+'_X', l+'_Y', l+'_Z'] for l in labels]\<close>, flattened.\<close>

definition labels_XYZ :: "string list \<Rightarrow> string list" where
  "labels_XYZ labels = concat (map (\<lambda>l. [l @ ''_X'', l @ ''_Y'', l @ ''_Z'']) labels)"

text \<open>
  Line 103: \<^verbatim>\<open>read_csv(skiprows=5, index_col=False, header=None, names=names)\<close>. Repeated
  names are refused with a ValueError. Every line left is a row; the parser expects as
  many fields as there are names, or as the first row has if that is more, and the frame
  keeps one cell per name.
\<close>

definition read_data_df :: "string list \<Rightarrow> trc_file \<Rightarrow> error + string table" where
  "read_data_df names f =
     (if \<not> distinct names then Inl ValueError
      else
        (case lines_after 5 f of
           [] \<Rightarrow> Inr \<lparr>columns = names, rows = []\<rparr>
         | r0 # rs \<Rightarrow>
             if list_ex (\<lambda>r. max (length names) (length r0) < length r) rs
             then Inl ParserError
             else Inr \<lparr>columns = names, rows = map (pad_row (length names)) (r0 # rs)\<rparr>))"

definition df_from_trc :: "trc_file \<Rightarrow> error + (string \<times> string) list \<times> string table" where
  "df_from_trc f =
     (case read_df_header f of
        Inl e \<Rightarrow> Inl e
      | Inr df_header \<Rightarrow>
          (case header_of df_header of
             Inl e \<Rightarrow> Inl e
           | Inr header \<Rightarrow>
               (case read_df_lab_columns f of
                  Inl e \<Rightarrow> Inl e
                | Inr cols \<Rightarrow>
                    (let labels = every3 (drop 2 (butlast cols));
                         labels_FTXYZ = [''Frame#'', ''Time''] @ labels_XYZ labels
                     in case read_data_df labels_FTXYZ f of
                          Inl e \<Rightarrow> Inl e
                        | Inr data_df \<Rightarrow>
                            Inr (header,
                                 \<lparr>columns = drop 2 (columns data_df),
                                  rows = map (drop 2) (rows data_df)\<rparr>)))))"

text \<open>
  \<^verbatim>\<open>analyze_data(data)\<close> (lines 125-134); \<open>objs\<close> is the host's list of existing
  transforms, read by \<^verbatim>\<open>increment_labels\<close>.
\<close>

definition analyze_data :: "string list \<Rightarrow> 'a table \<Rightarrow> string list \<times> string \<times> nat" where
  "analyze_data objs data =
     (let numFrames = length (rows data);
          labels_raw = columns data;
          labels = map (\<lambda>c. take (length c - 2) c) (every3 (drop 2 labels_raw));
          (str_cnt, labels') = increment_labels objs labels
      in (labels', str_cnt, numFrames))"

section \<open>Auxiliary notions used in the statements\<close>

text \<open>The joint names of the topology in pre-order.\<close>

definition joint_names :: "string list" where
  "joint_names = map snd (render_tree None root)"

text \<open>The header names before repeated names are renamed.\<close>

fun unnamed :: "nat \<Rightarrow> string list \<Rightarrow> string list" where
  "unnamed i [] = []"
| "unnamed i (word # ws) = (if word = [] then ''Unnamed: '' @ str i else word) # unnamed (Suc i) ws"

text \<open>
  The columns the coordinate of joint \<open>k\<close> is read from (lines 182-191): the six hip
  columns for the root of a table without a column \<open>CHip\<close>, the three columns of the
  joint's own marker otherwise.
\<close>

definition required_columns :: "'a table \<Rightarrow> nat \<Rightarrow> string list" where
  "required_columns data k =
     (if k = 0 \<and> ''CHip'' \<notin> set (columns data)
      then [''RHip_Z'', ''LHip_Z'', ''RHip_X'', ''LHip_X'', ''RHip_Y'', ''LHip_Y'']
      else map (\<lambda>ax. butlast (joint_names ! k) @ ax) [''_Z'', ''_X'', ''_Y''])"

text \<open>The number a string of decimal digits denotes (\<^verbatim>\<open>int(s)\<close>).\<close>

definition decimal_value :: "string \<Rightarrow> nat" where
  "decimal_value s = foldl (\<lambda>acc c. 10 * acc + (of_char c - 48)) 0 s"

section \<open>Example data\<close>

text \<open>
  A table as the parser names its columns: the 21 markers of the joints below the root,
  no \<open>CHip\<close> marker, two frames.
\<close>

definition demo_labels :: "string list" where
  "demo_labels =
    [''RHip'', ''RKnee'', ''RAnkle'', ''RBigToe'', ''RSmallToe'', ''RHeel'',
     ''LHip'', ''LKnee'', ''LAnkle'', ''LBigToe'', ''LSmallToe'', ''LHeel'',
     ''Neck'', ''Head'', ''Nose'', ''RShoulder'', ''RElbow'', ''RWrist'',
     ''LShoulder'', ''LElbow'', ''LWrist'']"

definition demo_table :: "real table" where
  "demo_table = \<lparr>columns = labels_XYZ demo_labels,
      rows =
        [[11, 12, 13, 21, 22, 23, 31, 32, 33, 41, 42, 43,
          51, 52, 53, 61, 62, 63, 71, 72, 73, 81, 82, 83,
          91, 92, 93, 101, 102, 103, 111, 112, 113, 121, 122, 123,
          131, 132, 133, 141, 142, 143, 151, 152, 153, 161, 162, 163,
          171, 172, 173, 181, 182, 183, 191, 192, 193, 201, 202, 203,
          211, 212, 213],
         [1011, 1012, 1013, 1021, 1022, 1023, 1031, 1032, 1033,
          1041, 1042, 1043, 1051, 1052, 1053, 1061, 1062, 1063,
          1071, 1072, 1073, 1081, 1082, 1083, 1091, 1092, 1093,
          1101, 1102, 1103, 1111, 1112, 1113, 1121, 1122, 1123,
          1131, 1132, 1133, 1141, 1142, 1143, 1151, 1152, 1153,
          1161, 1162, 1163, 1171, 1172, 1173, 1181, 1182, 1183,
          1191, 1192, 1193, 1201, 1202, 1203, 1211, 1212, 1213]]\<rparr>"

text \<open>
  The same markers preceded by a \<open>CHip\<close> marker of its own, one frame: \<open>CHip\<close> is at
  \<open>(11, 12, 13)\<close>, \<open>RHip\<close> at \<open>(21, 22, 23)\<close> and \<open>LHip\<close> at \<open>(81, 82, 83)\<close> in file
  order.
\<close>

definition chip_labels :: "string list" where
  "chip_labels = ''CHip'' # demo_labels"

definition chip_table :: "real table" where
  "chip_table = \<lparr>columns = labels_XYZ chip_labels,
      rows =
        [[11, 12, 13, 21, 22, 23, 31, 32, 33, 41, 42, 43,
          51, 52, 53, 61, 62, 63, 71, 72, 73, 81, 82, 83,
          91, 92, 93, 101, 102, 103, 111, 112, 113, 121, 122, 123,
          131, 132, 133, 141, 142, 143, 151, 152, 153, 161, 162, 163,
          171, 172, 173, 181, 182, 183, 191, 192, 193, 201, 202, 203,
          211, 212, 213, 221, 222, 223]]\<rparr>"

text \<open>A table without columns and without frames, and one with a single hip column.\<close>

definition empty_table :: "real table" where
  "empty_table = \<lparr>columns = [], rows = []\<rparr>"

definition hip_only_table :: "real table" where
  "hip_only_table = \<lparr>columns = [''RHip_X''], rows = [[1]]\<rparr>"

text \<open>The table of a file that names every marker and holds no frame.\<close>

definition frameless_table :: "real table" where
  "frameless_table = \<lparr>columns = labels_XYZ demo_labels, rows = []\<rparr>"

text \<open>
  Trajectory files. \<open>standard_file\<close> has the layout the parser is written for: banner,
  metadata keys, metadata values, column headers, per-axis sub-labels, then the frames
  (here after a blank line); two markers, two frames. \<open>spec_layout_file\<close> has a blank
  fourth row, the column headers in row 5, the sub-labels in row 6 and its single frame
  in row 7. \<open>odd_metadata_file\<close> is in the standard layout with one marker and one
  frame, but its metadata lack six of the eight keys and announce five markers.
\<close>

definition trc_banner :: "string list" where
  "trc_banner = [''PathFileType'', ''4'', ''(X/Y/Z)'', ''demo.trc'']"

definition trc_keys :: "string list" where
  "trc_keys = [''DataRate'', ''CameraRate'', ''NumFrames'', ''NumMarkers'', ''Units'',
               ''OrigDataRate'', ''OrigDataStartFrame'', ''OrigNumFrames'']"

definition standard_rest :: "string list list" where
  "standard_rest =
     [[''Frame#'', ''Time'', ''A'', [], [], ''B'', [], []],
      [[], [], ''X1'', ''Y1'', ''Z1'', ''X2'', ''Y2'', ''Z2''],
      [],
      [''1'', ''0.00'', ''0.1'', ''0.2'', ''0.3'', ''0.4'', ''0.5'', ''0.6''],
      [''2'', ''0.05'', ''1.1'', ''1.2'', ''1.3'', ''1.4'', ''1.5'', ''1.6'']]"

definition standard_file :: trc_file where
  "standard_file =
     trc_banner # trc_keys # [''20'', ''20'', ''2'', ''2'', ''m'', ''20'', ''1'', ''2'']
       # standard_rest"

definition spec_layout_file :: trc_file where
  "spec_layout_file =
     [trc_banner,
      trc_keys,
      [''20'', ''20'', ''1'', ''1'', ''m'', ''20'', ''1'', ''1''],
      [],
      [''Frame#'', ''Time'', ''M'', [], []],
      [[], [], ''X1'', ''Y1'', ''Z1''],
      [''1'', ''0.00'', ''0.1'', ''0.2'', ''0.3'']]"

definition odd_metadata_file :: trc_file where
  "odd_metadata_file =
     [trc_banner,
      [''DataRate'', ''NumMarkers''],
      [''20'', ''5''],
      [''Frame#'', ''Time'', ''M'', [], []],
      [[], [], ''X1'', ''Y1'', ''Z1''],
      [''1'', ''0.00'', ''0.1'', ''0.2'', ''0.3'']]"

section \<open>Properties of the de-duplication probe\<close>

lemma increment_labels_loop_lower: "cnt \<le> increment_labels_loop objs ls cnt"
proof (induction ls arbitrary: cnt)
  case Nil
  show ?case by simp
next
  case (Cons l ls)
  have "cnt \<le> increment_labels_loop objs ls cnt" by (rule Cons.IH)
  moreover have "cnt + 1 \<le> increment_labels_loop objs ls (cnt + 1)" by (rule Cons.IH)
  ultimately show ?case by simp
qed

lemma increment_labels_loop_upper: "increment_labels_loop objs ls cnt \<le> cnt + length ls"
proof (induction ls arbitrary: cnt)
  case Nil
  show ?case by simp
next
  case (Cons l ls)
  have "increment_labels_loop objs ls cnt \<le> cnt + length ls" by (rule Cons.IH)
  moreover have "increment_labels_loop objs ls (cnt + 1) \<le> cnt + 1 + length ls"
    by (rule Cons.IH)
  ultimately show ?case by simp
qed

text \<open>
  C10. The probe is one pass over the label list (a structurally recursive, hence total,
  function), the counter grows by at most one per label, and the returned counter \<open>n\<close>
  satisfies \<open>1 \<le> n \<le> len(labels) + 1\<close> whatever the existing names are.
\<close>

theorem increment_labels_counter_bounded:
  "\<exists>n. increment_labels objs labels = (str n, map (\<lambda>l. l @ str n) labels)
       \<and> n = increment_labels_loop objs labels 1
       \<and> 1 \<le> n \<and> n \<le> length labels + 1"
proof -
  let ?n = "increment_labels_loop objs labels 1"
  have "increment_labels objs labels = (str ?n, map (\<lambda>l. l @ str ?n) labels)"
    by (simp add: increment_labels_def Let_def)
  moreover have "1 \<le> ?n" by (rule increment_labels_loop_lower)
  moreover have "?n \<le> length labels + 1"
    using increment_labels_loop_upper [of objs labels 1] by simp
  ultimately show ?thesis by blast
qed

text \<open>
  C1 (evaluation at the failing input). After two imports of a file with the single marker
  \<open>A\<close> the workspace holds \<open>A1\<close> and \<open>A2\<close>; the third probe sees \<open>A1\<close>, moves to 2 and
  stops, so the returned name \<open>A2\<close> is one that already exists.
\<close>

theorem increment_labels_returns_colliding_name:
  "increment_labels [''A1'', ''A2''] [''A''] = (''2'', [''A2''])
   \<and> ''A2'' \<in> set [''A1'', ''A2'']"
  by (simp add: increment_labels_def Let_def str.simps digit_char_def)

section \<open>Basic facts: strings, runs, the topology\<close>

lemma digit_char_in: "d < 10 \<Longrightarrow> digit_char d \<in> set ''0123456789''"
  unfolding digit_char_def by (rule nth_mem) simp

lemma str_digits: "set (str n) \<subseteq> set ''0123456789''"
proof (induction n rule: str.induct)
  case (1 n)
  show ?case
  proof (cases "n < 10")
    case True
    then show ?thesis using digit_char_in [of n] by (subst str.simps) simp
  next
    case False
    have "n mod 10 < 10" by simp
    then have "digit_char (n mod 10) \<in> set ''0123456789''" by (rule digit_char_in)
    with False 1 show ?thesis by (subst str.simps) simp
  qed
qed

lemma re_sub_digits_append: "re_sub_digits (a @ b) = re_sub_digits a @ re_sub_digits b"
  by (simp add: re_sub_digits_def)

lemma re_sub_digits_str: "re_sub_digits (str n) = []"
proof -
  have "\<forall>c\<in>set (str n). \<not> c \<notin> set ''0123456789''"
    using str_digits [of n] by blast
  then show ?thesis unfolding re_sub_digits_def by (simp only: filter_False)
qed

lemma re_sub_digits_J: "re_sub_digits ''J'' = ''J''"
  by (simp add: re_sub_digits_def)

lemma jnt_of_joint: "jnt_of (l @ ''J'' @ str n) = re_sub_digits l"
proof -
  have "re_sub_digits (l @ ''J'' @ str n) = re_sub_digits l @ ''J''"
    by (simp only: re_sub_digits_append re_sub_digits_str re_sub_digits_J append_Nil2)
  then show ?thesis by (simp add: jnt_of_def)
qed

lemma re_sub_digits_id: "set l \<inter> set ''0123456789'' = {} \<Longrightarrow> re_sub_digits l = l"
  unfolding re_sub_digits_def by (rule filter_True) blast

lemma then_run_ok [simp]: "then_run (a, None) b = (a @ fst b, snd b)"
  by (simp add: then_run_def)

lemma then_run_err [simp]: "then_run (a, Some e) b = (a, Some e)"
  by (simp add: then_run_def)

lemma then_run_None_iff:
  "then_run a b = (tr, None) \<longleftrightarrow> snd a = None \<and> snd b = None \<and> tr = fst a @ fst b"
  by (cases a; cases b) (auto simp: then_run_def split: option.splits)

lemma then_run_failed: "snd a \<noteq> None \<Longrightarrow> then_run a b = a"
  by (cases a) (auto simp: then_run_def split: option.splits)

lemma render_tree_root: "render_tree None root =
 [(None, ''CHipJ''), (Some ''CHipJ'', ''RHipJ''),
  (Some ''RHipJ'', ''RKneeJ''), (Some ''RKneeJ'', ''RAnkleJ''),
  (Some ''RAnkleJ'', ''RBigToeJ''), (Some ''RBigToeJ'', ''RSmallToeJ''),
  (Some ''RAnkleJ'', ''RHeelJ''), (Some ''CHipJ'', ''LHipJ''),
  (Some ''LHipJ'', ''LKneeJ''), (Some ''LKneeJ'', ''LAnkleJ''),
  (Some ''LAnkleJ'', ''LBigToeJ''), (Some ''LBigToeJ'', ''LSmallToeJ''),
  (Some ''LAnkleJ'', ''LHeelJ''), (Some ''CHipJ'', ''NeckJ''),
  (Some ''NeckJ'', ''HeadJ''), (Some ''HeadJ'', ''NoseJ''),
  (Some ''NeckJ'', ''RShoulderJ''), (Some ''RShoulderJ'', ''RElbowJ''),
  (Some ''RElbowJ'', ''RWristJ''), (Some ''NeckJ'', ''LShoulderJ''),
  (Some ''LShoulderJ'', ''LElbowJ''), (Some ''LElbowJ'', ''LWristJ'')]"
  by (simp add: root_def)

section \<open>The calls of joint creation and of one placement pass\<close>

lemma create_joints_ok: "snd (create_joints c) = None"
  by (simp add: create_joints_def create_joint_def root_def)

lemma create_joint_events:
  "e \<in> set (fst (create_joint c pn)) \<Longrightarrow> (\<exists>s. e = Select s) \<or> (\<exists>s. e = Joint s)"
  by (cases pn) (auto simp: create_joint_def split: if_splits option.splits)

lemma create_loop_events:
  "e \<in> set (fst (create_loop c pns)) \<Longrightarrow> (\<exists>s. e = Select s) \<or> (\<exists>s. e = Joint s)"
proof (induction pns)
  case Nil
  then show ?case by simp
next
  case (Cons pn pns)
  from Cons.prems have "e \<in> set (fst (create_joint c pn)) \<or> e \<in> set (fst (create_loop c pns))"
    by (cases "create_joint c pn") (auto simp: then_run_def split: option.splits)
  then show ?case using Cons.IH create_joint_events by blast
qed

lemma create_joints_events:
  assumes "e \<in> set (fst (create_joints c))"
  shows "e = SelectNone \<or> (\<exists>s. e = Select s) \<or> (\<exists>s. e = Joint s) \<or> (\<exists>s. e = SelectHierarchy s)"
proof -
  obtain l err where l: "create_loop c (render_tree None root) = (l, err)"
    by (cases "create_loop c (render_tree None root)") auto
  have "fst (then_run (l, err) ([SelectHierarchy (''CHipJ'' @ c)], None)) = l
        \<or> fst (then_run (l, err) ([SelectHierarchy (''CHipJ'' @ c)], None))
            = l @ [SelectHierarchy (''CHipJ'' @ c)]"
    by (cases err) simp_all
  with assms l have "e = SelectNone \<or> e = Joint (name root @ c) \<or> e \<in> set l
      \<or> e = SelectHierarchy (''CHipJ'' @ c)"
    unfolding create_joints_def by auto
  moreover have "e \<in> set l \<Longrightarrow> (\<exists>s. e = Select s) \<or> (\<exists>s. e = Joint s)"
    using create_loop_events [of e c "render_tree None root"] l by simp
  ultimately show ?thesis by blast
qed

lemma create_joints_no_move: "Move x y z jn \<notin> set (fst (create_joints c))"
  using create_joints_events [of "Move x y z jn" c] by auto

lemma create_joints_no_orient: "OrientParentOf jn \<notin> set (fst (create_joints c))"
  using create_joints_events [of "OrientParentOf jn" c] by auto

lemma create_joints_no_key: "SetKeyframe jn t \<notin> set (fst (create_joints c))"
  using create_joints_events [of "SetKeyframe jn t" c] by auto

lemma place_joints_step:
  assumes "place_joints data i j js = (tr, None)" and "k < length js"
  shows "\<exists>x y z pre post. joint_coord data i (j + k) (js ! k) = Inr (x, y, z)
           \<and> tr = pre @ [Move x y z (js ! k), SetKeyframe (js ! k) i] @ post"
  using assms
proof (induction js arbitrary: j k tr)
  case Nil
  then show ?case by simp
next
  case (Cons jn js)
  from Cons.prems(1) obtain x y z where c: "joint_coord data i j jn = Inr (x, y, z)"
    by (auto split: sum.splits)
  with Cons.prems(1) obtain tr' where r: "place_joints data i (Suc j) js = (tr', None)"
    and tr: "tr = [Move x y z jn, SetKeyframe jn i] @ tr'"
    by (cases "place_joints data i (Suc j) js") auto
  show ?case
  proof (cases k)
    case 0
    have "tr = [] @ [Move x y z jn, SetKeyframe jn i] @ tr'" using tr by simp
    with c 0 show ?thesis by (metis add.right_neutral nth_Cons_0)
  next
    case (Suc k')
    with Cons.prems(2) have "k' < length js" by simp
    from Cons.IH [OF r this] obtain x' y' z' pre post where
      c': "joint_coord data i (Suc j + k') (js ! k') = Inr (x', y', z')"
      and t': "tr' = pre @ [Move x' y' z' (js ! k'), SetKeyframe (js ! k') i] @ post"
      by blast
    have "tr = ([Move x y z jn, SetKeyframe jn i] @ pre)
                 @ [Move x' y' z' (js ! k'), SetKeyframe (js ! k') i] @ post"
      using tr t' by simp
    moreover have "joint_coord data i (j + k) ((jn # js) ! k) = Inr (x', y', z')"
      using c' Suc by simp
    moreover have "(jn # js) ! k = js ! k'" using Suc by simp
    ultimately show ?thesis by metis
  qed
qed

lemma place_joints_events:
  "e \<in> set (fst (place_joints data i j js)) \<Longrightarrow>
     (\<exists>k x y z. k < length js \<and> joint_coord data i (j + k) (js ! k) = Inr (x, y, z)
         \<and> e = Move x y z (js ! k))
     \<or> (\<exists>jn \<in> set js. e = SetKeyframe jn i)"
proof (induction js arbitrary: j)
  case Nil
  then show ?case by simp
next
  case (Cons jn js)
  show ?case
  proof (cases "joint_coord data i j jn")
    case (Inl err)
    with Cons.prems show ?thesis by simp
  next
    case (Inr c)
    obtain x y z where c: "c = (x, y, z)" by (cases c) auto
    from Cons.prems Inr c have
      "e = Move x y z jn \<or> e = SetKeyframe jn i \<or> e \<in> set (fst (place_joints data i (Suc j) js))"
      by (cases "place_joints data i (Suc j) js") (auto simp: then_run_def split: option.splits)
    then consider "e = Move x y z jn" | "e = SetKeyframe jn i"
      | "e \<in> set (fst (place_joints data i (Suc j) js))" by blast
    then show ?thesis
    proof cases
      case 1
      have "0 < length (jn # js)" by simp
      moreover have "joint_coord data i (j + 0) ((jn # js) ! 0) = Inr (x, y, z)"
        using Inr c by simp
      moreover have "e = Move x y z ((jn # js) ! 0)" using 1 by simp
      ultimately show ?thesis by blast
    next
      case 2
      then show ?thesis by simp
    next
      case 3
      from Cons.IH [OF 3] show ?thesis
      proof
        assume "\<exists>k x y z. k < length js \<and> joint_coord data i (Suc j + k) (js ! k) = Inr (x, y, z)
                  \<and> e = Move x y z (js ! k)"
        then obtain k x' y' z' where k: "k < length js"
          and jc: "joint_coord data i (Suc j + k) (js ! k) = Inr (x', y', z')"
          and e: "e = Move x' y' z' (js ! k)" by blast
        have "Suc k < length (jn # js)" using k by simp
        moreover have "joint_coord data i (j + Suc k) ((jn # js) ! Suc k) = Inr (x', y', z')"
          using jc by simp
        moreover have "e = Move x' y' z' ((jn # js) ! Suc k)" using e by simp
        ultimately show ?thesis by blast
      next
        assume "\<exists>jn \<in> set js. e = SetKeyframe jn i"
        then show ?thesis by auto
      qed
    qed
  qed
qed

section \<open>The calls of the frame loop\<close>

lemma then_run_events:
  "e \<in> set (fst (then_run a b)) \<Longrightarrow> e \<in> set (fst a) \<or> e \<in> set (fst b)"
  by (cases a) (auto simp: then_run_def split: option.splits)

lemma then_run_prefix: "\<exists>post. fst (then_run a b) = fst a @ post"
  by (cases a) (auto simp: then_run_def split: option.splits)

lemma frames_loop_frame:
  assumes "frames_loop data js i0 n = (tr, None)" and "i0 \<le> i" and "i < i0 + n"
  shows "\<exists>p pre post. place_joints data i 0 js = (p, None) \<and> tr = pre @ p @ post"
  using assms
proof (induction n arbitrary: i0 tr)
  case 0
  then show ?case by simp
next
  case (Suc n)
  let ?o = "if i0 = 0 then (orient_joints i0 js, None) else ([], None)"
  from Suc.prems(1) have
    a: "snd (then_run (place_joints data i0 0 js) ?o) = None"
    and b: "snd (frames_loop data js (Suc i0) n) = None"
    and tr: "tr = fst (then_run (place_joints data i0 0 js) ?o) @ fst (frames_loop data js (Suc i0) n)"
    by (simp_all add: then_run_None_iff)
  obtain p0 where p0: "place_joints data i0 0 js = (p0, None)"
    using a by (cases "place_joints data i0 0 js"; cases "snd (place_joints data i0 0 js)")
      (auto simp: then_run_def)
  have f0: "fst (then_run (place_joints data i0 0 js) ?o) = p0 @ fst ?o"
    using p0 by simp
  show ?case
  proof (cases "i = i0")
    case True
    have "tr = [] @ p0 @ (fst ?o @ fst (frames_loop data js (Suc i0) n))"
      using tr f0 by simp
    with p0 True show ?thesis by blast
  next
    case False
    with Suc.prems have "Suc i0 \<le> i" "i < Suc i0 + n" by simp_all
    moreover obtain tr' where r: "frames_loop data js (Suc i0) n = (tr', None)"
      using b by (cases "frames_loop data js (Suc i0) n") auto
    ultimately obtain p pre post where p: "place_joints data i 0 js = (p, None)"
      and t: "tr' = pre @ p @ post"
      using Suc.IH by blast
    have "tr = (p0 @ fst ?o @ pre) @ p @ post" using tr f0 r t by simp
    with p show ?thesis by blast
  qed
qed

lemma set_skeleton_frame:
  assumes "set_skeleton data c numFrames = (tr, None)" and "i < numFrames"
    and "k < length (jointsJ c)"
  shows "\<exists>x y z pre post. joint_coord data i k (jointsJ c ! k) = Inr (x, y, z)
           \<and> tr = pre @ [Move x y z (jointsJ c ! k), SetKeyframe (jointsJ c ! k) i] @ post"
proof -
  from assms(1) obtain fr where fr: "frames_loop data (jointsJ c) 0 numFrames = (fr, None)"
    and tr: "tr = fst (create_joints c) @ fr"
    unfolding set_skeleton_def
    by (cases "frames_loop data (jointsJ c) 0 numFrames") (auto simp: then_run_None_iff)
  from frames_loop_frame [OF fr, of i] assms(2) obtain p pre post where
    p: "place_joints data i 0 (jointsJ c) = (p, None)" and f: "fr = pre @ p @ post"
    by auto
  from place_joints_step [OF p assms(3)] obtain x y z pre' post' where
    jc: "joint_coord data i k (jointsJ c ! k) = Inr (x, y, z)"
    and pp: "p = pre' @ [Move x y z (jointsJ c ! k), SetKeyframe (jointsJ c ! k) i] @ post'"
    by auto
  have "tr = (fst (create_joints c) @ pre @ pre')
              @ [Move x y z (jointsJ c ! k), SetKeyframe (jointsJ c ! k) i] @ (post' @ post)"
    using tr f pp by simp
  with jc show ?thesis by blast
qed

section \<open>Looking a coordinate column up by label and by position\<close>

lemma suffix_eq: "length s = length t \<Longrightarrow> (a @ s = b @ t) = (a = b \<and> s = t)"
  by simp

lemma distinct_count_list:
  "distinct xs \<Longrightarrow> count_list xs x = (if x \<in> set xs then 1 else 0)"
  by (induction xs) auto

lemma labels_XYZ_Cons:
  "labels_XYZ (l # ls) = (l @ ''_X'') # (l @ ''_Y'') # (l @ ''_Z'') # labels_XYZ ls"
  by (simp add: labels_XYZ_def)

lemma labels_XYZ_Nil: "labels_XYZ [] = []"
  by (simp add: labels_XYZ_def)

lemma length_labels_XYZ: "length (labels_XYZ ls) = 3 * length ls"
  by (induction ls) (simp_all add: labels_XYZ_Cons labels_XYZ_Nil)

lemma count_list_XYZ:
  assumes "s = ''_X'' \<or> s = ''_Y'' \<or> s = ''_Z''"
  shows "count_list (labels_XYZ ls) (l @ s) = count_list ls l"
proof (induction ls)
  case Nil
  show ?case by (simp add: labels_XYZ_Nil)
next
  case (Cons a ls)
  have len: "length s = 2" using assms by auto
  have x: "(a @ ''_X'' = l @ s) = (a = l \<and> s = ''_X'')" using len by (simp add: suffix_eq eq_commute)
  have y: "(a @ ''_Y'' = l @ s) = (a = l \<and> s = ''_Y'')" using len by (simp add: suffix_eq eq_commute)
  have z: "(a @ ''_Z'' = l @ s) = (a = l \<and> s = ''_Z'')" using len by (simp add: suffix_eq eq_commute)
  show ?case
    using assms Cons.IH by (auto simp: labels_XYZ_Cons x y z)
qed

lemma column_index_XYZ:
  assumes "distinct ls" and "j < length ls"
  shows "column_index (labels_XYZ ls) (ls ! j @ ''_X'') = Some (3 * j)"
    and "column_index (labels_XYZ ls) (ls ! j @ ''_Y'') = Some (3 * j + 1)"
    and "column_index (labels_XYZ ls) (ls ! j @ ''_Z'') = Some (3 * j + 2)"
  using assms
proof (induction ls arbitrary: j)
  case Nil
  { case 1 then show ?case by simp }
  { case 2 then show ?case by simp }
  { case 3 then show ?case by simp }
next
  case (Cons a ls)
  { case 1
    show ?case
    proof (cases j)
      case 0
      then show ?thesis by (simp add: labels_XYZ_Cons)
    next
      case (Suc j')
      with 1 have j': "j' < length ls" and d: "distinct ls" and ne: "a \<noteq> ls ! j'" by auto
      from Cons.IH(1) [OF d j'] ne Suc show ?thesis
        by (simp add: labels_XYZ_Cons)
    qed }
  { case 2
    show ?case
    proof (cases j)
      case 0
      then show ?thesis by (simp add: labels_XYZ_Cons)
    next
      case (Suc j')
      with 2 have j': "j' < length ls" and d: "distinct ls" and ne: "a \<noteq> ls ! j'" by auto
      from Cons.IH(2) [OF d j'] ne Suc show ?thesis
        by (simp add: labels_XYZ_Cons)
    qed }
  { case 3
    show ?case
    proof (cases j)
      case 0
      then show ?thesis by (simp add: labels_XYZ_Cons)
    next
      case (Suc j')
      with 3 have j': "j' < length ls" and d: "distinct ls" and ne: "a \<noteq> ls ! j'" by auto
      from Cons.IH(3) [OF d j'] ne Suc show ?thesis
        by (simp add: labels_XYZ_Cons)
    qed }
qed

lemma loc_XYZ:
  assumes "columns data = labels_XYZ ls" and "distinct ls" and "j < length ls"
    and "i < length (rows data)"
  shows "loc data i (ls ! j @ ''_X'') = iloc data i (3 * j)"
    and "loc data i (ls ! j @ ''_Y'') = iloc data i (3 * j + 1)"
    and "loc data i (ls ! j @ ''_Z'') = iloc data i (3 * j + 2)"
proof -
  have m: "ls ! j \<in> set ls" using assms(3) by simp
  have c: "count_list (labels_XYZ ls) (ls ! j @ s) = 1"
    if "s = ''_X'' \<or> s = ''_Y'' \<or> s = ''_Z''" for s
    using count_list_XYZ [OF that, of ls "ls ! j"] distinct_count_list [OF assms(2), of "ls ! j"] m
    by simp
  show "loc data i (ls ! j @ ''_X'') = iloc data i (3 * j)"
    using assms(4) c [of "''_X''"] column_index_XYZ(1) [OF assms(2,3)]
    by (simp add: loc_def assms(1))
  show "loc data i (ls ! j @ ''_Y'') = iloc data i (3 * j + 1)"
    using assms(4) c [of "''_Y''"] column_index_XYZ(2) [OF assms(2,3)]
    by (simp add: loc_def assms(1))
  show "loc data i (ls ! j @ ''_Z'') = iloc data i (3 * j + 2)"
    using assms(4) c [of "''_Z''"] column_index_XYZ(3) [OF assms(2,3)]
    by (simp add: loc_def assms(1))
qed

section \<open>Facts about the topology and the coordinate of a joint\<close>

lemma joint_names_eq: "joint_names =
  [''CHipJ'', ''RHipJ'', ''RKneeJ'', ''RAnkleJ'', ''RBigToeJ'', ''RSmallToeJ'', ''RHeelJ'',
   ''LHipJ'', ''LKneeJ'', ''LAnkleJ'', ''LBigToeJ'', ''LSmallToeJ'', ''LHeelJ'',
   ''NeckJ'', ''HeadJ'', ''NoseJ'', ''RShoulderJ'', ''RElbowJ'', ''RWristJ'',
   ''LShoulderJ'', ''LElbowJ'', ''LWristJ'']"
  by (simp add: joint_names_def render_tree_root)

lemma jointsJ_names: "jointsJ c = map (\<lambda>nm. nm @ c) joint_names"
  by (simp add: jointsJ_def joint_names_def)

lemma length_joint_names: "length joint_names = 22"
  by (simp add: joint_names_eq)

lemma length_jointsJ: "length (jointsJ c) = 22"
  by (simp add: jointsJ_names length_joint_names)

lemma jointsJ_nth: "k < 22 \<Longrightarrow> jointsJ c ! k = joint_names ! k @ c"
  by (simp add: jointsJ_names length_joint_names)

lemma joint_names_0: "joint_names ! 0 = ''CHipJ''"
  by (simp add: joint_names_eq)

lemma distinct_joint_names: "distinct joint_names"
  by (simp add: joint_names_eq)

lemma distinct_jointsJ: "distinct (jointsJ c)"
  by (simp add: jointsJ_names distinct_map distinct_joint_names inj_on_def)

lemma joint_names_no_digit: "list_all (\<lambda>nm. re_sub_digits nm = nm) joint_names"
  by (simp add: joint_names_eq re_sub_digits_def)

lemma jnt_of_jointsJ:
  assumes "k < 22"
  shows "jnt_of (jointsJ (str n) ! k) = butlast (joint_names ! k)"
proof -
  have "joint_names ! k \<in> set joint_names" using assms by (simp add: length_joint_names)
  then have "re_sub_digits (joint_names ! k) = joint_names ! k"
    using joint_names_no_digit by (simp add: list_all_iff)
  then show ?thesis
    by (simp add: jointsJ_nth [OF assms] jnt_of_def re_sub_digits_append re_sub_digits_str)
qed

lemma root_hips:
  "butlast (name root) = ''CHip''"
  "butlast (name (children root ! 0)) = ''RHip''"
  "butlast (name (children root ! 1)) = ''LHip''"
  by (simp_all add: root_def)

lemma joint_coord_root:
  "''CHip'' \<notin> set (columns data) \<Longrightarrow>
   joint_coord data i 0 joint =
     coord3 (hip_mid data i ''RHip_Z'' ''LHip_Z'')
            (hip_mid data i ''RHip_X'' ''LHip_X'')
            (hip_mid data i ''RHip_Y'' ''LHip_Y'')"
  by (simp add: joint_coord_def Let_def root_def)

lemma joint_coord_direct:
  assumes "k < 22" and "\<not> (k = 0 \<and> ''CHip'' \<notin> set (columns data))"
  shows "joint_coord data i k (jointsJ (str n) ! k) =
     coord3 (loc data i (butlast (joint_names ! k) @ ''_Z''))
            (loc data i (butlast (joint_names ! k) @ ''_X''))
            (loc data i (butlast (joint_names ! k) @ ''_Y''))"
  using assms(2) by (auto simp: joint_coord_def Let_def root_hips jnt_of_jointsJ [OF assms(1)])

lemma coord3_Inr [simp]: "coord3 (Inr x) (Inr y) (Inr z) = Inr (x, y, z)"
  by (simp add: coord3_def)

lemma coord3_Inr_iff:
  "coord3 cx cy cz = Inr (x, y, z) \<longleftrightarrow> cx = Inr x \<and> cy = Inr y \<and> cz = Inr z"
  by (auto simp: coord3_def split: sum.splits)

lemma hip_mid_Inr [simp]:
  "loc data i c1 = Inr a \<Longrightarrow> loc data i c2 = Inr b \<Longrightarrow> hip_mid data i c1 c2 = Inr ((a + b) / 2)"
  by (simp add: hip_mid_def)

section \<open>Success, failure and calls of the whole frame loop\<close>

lemma place_joints_ok:
  assumes "\<And>k. k < length js \<Longrightarrow> \<exists>c. joint_coord data i (j + k) (js ! k) = Inr c"
  shows "snd (place_joints data i j js) = None"
  using assms
proof (induction js arbitrary: j)
  case Nil
  show ?case by simp
next
  case (Cons jn js)
  from Cons.prems [of 0] obtain c where c: "joint_coord data i j jn = Inr c" by auto
  obtain x y z where xyz: "c = (x, y, z)" by (cases c) auto
  have "snd (place_joints data i (Suc j) js) = None"
  proof (rule Cons.IH)
    fix k assume "k < length js"
    then have "\<exists>c. joint_coord data i (j + Suc k) ((jn # js) ! Suc k) = Inr c"
      using Cons.prems [of "Suc k"] by simp
    then show "\<exists>c. joint_coord data i (Suc j + k) (js ! k) = Inr c" by simp
  qed
  with c xyz show ?case by simp
qed

lemma place_joints_fails:
  assumes "k < length js" and "joint_coord data i (j + k) (js ! k) = Inl e"
  shows "snd (place_joints data i j js) \<noteq> None"
proof
  assume "snd (place_joints data i j js) = None"
  then obtain tr where "place_joints data i j js = (tr, None)"
    by (cases "place_joints data i j js") auto
  from place_joints_step [OF this assms(1)] assms(2) show False by auto
qed

lemma frames_loop_ok:
  assumes "\<And>i. i0 \<le> i \<Longrightarrow> i < i0 + n \<Longrightarrow> snd (place_joints data i 0 js) = None"
  shows "snd (frames_loop data js i0 n) = None"
  using assms
proof (induction n arbitrary: i0)
  case 0
  show ?case by simp
next
  case (Suc n)
  have p: "snd (place_joints data i0 0 js) = None" using Suc.prems [of i0] by simp
  have r: "snd (frames_loop data js (Suc i0) n) = None"
    by (rule Suc.IH) (use Suc.prems in simp)
  obtain p0 where p0: "place_joints data i0 0 js = (p0, None)"
    using p by (cases "place_joints data i0 0 js") auto
  show ?case using p0 r by auto
qed

lemma frames_loop_fails:
  assumes "snd (place_joints data i0 0 js) \<noteq> None"
  shows "snd (frames_loop data js i0 (Suc n)) \<noteq> None"
  using assms by (simp add: then_run_failed)

lemma frames_loop_events:
  assumes "e \<in> set (fst (frames_loop data js i0 n))"
  shows "(\<exists>i. i0 \<le> i \<and> e \<in> set (fst (place_joints data i 0 js)))
       \<or> (i0 = 0 \<and> 0 < n \<and> snd (place_joints data 0 0 js) = None \<and> e \<in> set (orient_joints 0 js))"
  using assms
proof (induction n arbitrary: i0)
  case 0
  then show ?case by simp
next
  case (Suc n)
  let ?o = "if i0 = 0 then (orient_joints i0 js, None) else ([], None)"
  from Suc.prems have "e \<in> set (fst (then_run (then_run (place_joints data i0 0 js) ?o)
      (frames_loop data js (Suc i0) n)))" by simp
  then have "e \<in> set (fst (then_run (place_joints data i0 0 js) ?o))
      \<or> e \<in> set (fst (frames_loop data js (Suc i0) n))"
    by (rule then_run_events)
  then show ?case
  proof
    assume a: "e \<in> set (fst (then_run (place_joints data i0 0 js) ?o))"
    show ?thesis
    proof (cases "snd (place_joints data i0 0 js)")
      case None
      then obtain p0 where p0: "place_joints data i0 0 js = (p0, None)"
        by (cases "place_joints data i0 0 js") auto
      with a have "e \<in> set p0 \<or> (i0 = 0 \<and> e \<in> set (orient_joints 0 js))"
        by (auto split: if_splits)
      with p0 None show ?thesis by fastforce
    next
      case (Some err)
      then have "then_run (place_joints data i0 0 js) ?o = place_joints data i0 0 js"
        by (simp add: then_run_failed)
      with a show ?thesis by auto
    qed
  next
    assume "e \<in> set (fst (frames_loop data js (Suc i0) n))"
    from Suc.IH [OF this] show ?thesis by auto
  qed
qed

lemma count_list_append: "count_list (xs @ ys) x = count_list xs x + count_list ys x"
  by (induction xs) auto

lemma count_list_notin: "x \<notin> set xs \<Longrightarrow> count_list xs x = 0"
  by (induction xs) auto

lemma count_orient:
  "count_list (concat (map (\<lambda>joint. [OrientParentOf joint, SetKeyframe joint i]) xs))
      (OrientParentOf jn) = count_list xs jn"
  by (induction xs) auto

lemma orient_in_orient_joints:
  "OrientParentOf jn \<in> set (orient_joints i js) \<longleftrightarrow> jn \<in> set (tl js)"
  by (auto simp: orient_joints_def)

lemma place_joints_no_orient: "OrientParentOf jn \<notin> set (fst (place_joints data i j js))"
  using place_joints_events [of "OrientParentOf jn" data i j js] by auto

lemma place_joints_key_frame:
  "SetKeyframe jn t \<in> set (fst (place_joints data i j js)) \<Longrightarrow> t = i"
  using place_joints_events [of "SetKeyframe jn t" data i j js] by auto

lemma frames_loop_later_no_orient:
  "0 < i0 \<Longrightarrow> OrientParentOf jn \<notin> set (fst (frames_loop data js i0 n))"
  using frames_loop_events [of "OrientParentOf jn" data js i0 n] place_joints_no_orient
  by auto

lemma frames_loop_later_keys:
  assumes "0 < i0" and "SetKeyframe jn t \<in> set (fst (frames_loop data js i0 n))"
  shows "i0 \<le> t"
proof -
  from frames_loop_events [OF assms(2)] assms(1) obtain i where
    i: "i0 \<le> i" and e: "SetKeyframe jn t \<in> set (fst (place_joints data i 0 js))" by auto
  from place_joints_key_frame [OF e] i show ?thesis by simp
qed

section \<open>Absent columns\<close>

lemma column_index_None: "column_index cs c = None \<longleftrightarrow> c \<notin> set cs"
  by (induction cs) auto

lemma loc_absent: "c \<notin> set (columns data) \<Longrightarrow> loc data i c = Inl KeyError"
  by (simp add: loc_def column_index_None [THEN iffD2])

lemma set_skeleton_snd: "snd (set_skeleton data c numFrames) = snd (frames_loop data (jointsJ c) 0 numFrames)"
proof -
  obtain ev where "create_joints c = (ev, None)"
    using create_joints_ok [of c] by (cases "create_joints c") auto
  then show ?thesis by (simp add: set_skeleton_def)
qed

lemma set_skeleton_fst:
  "fst (set_skeleton data c numFrames) = fst (create_joints c) @ fst (frames_loop data (jointsJ c) 0 numFrames)"
proof -
  obtain ev where "create_joints c = (ev, None)"
    using create_joints_ok [of c] by (cases "create_joints c") auto
  then show ?thesis by (simp add: set_skeleton_def)
qed

lemma orient_joints_no_move: "Move x y z jn \<notin> set (orient_joints i js)"
  by (auto simp: orient_joints_def)

lemma set_skeleton_move:
  assumes "Move x y z (jointsJ c ! k) \<in> set (fst (set_skeleton data c numFrames))" and "k < 22"
  shows "\<exists>i. joint_coord data i k (jointsJ c ! k) = Inr (x, y, z)"
proof -
  from assms(1) have "Move x y z (jointsJ c ! k) \<in> set (fst (frames_loop data (jointsJ c) 0 numFrames))"
    using create_joints_no_move by (simp add: set_skeleton_fst)
  from frames_loop_events [OF this] obtain i where
    "Move x y z (jointsJ c ! k) \<in> set (fst (place_joints data i 0 (jointsJ c)))"
    using orient_joints_no_move by blast
  from place_joints_events [OF this] obtain k' x' y' z' where k': "k' < length (jointsJ c)"
    and jc: "joint_coord data i (0 + k') (jointsJ c ! k') = Inr (x', y', z')"
    and e: "Move x y z (jointsJ c ! k) = Move x' y' z' (jointsJ c ! k')"
    by auto
  from e have same: "jointsJ c ! k = jointsJ c ! k'" and xyz: "x = x'" "y = y'" "z = z'" by simp_all
  have "k = k'"
    using same k' assms(2) distinct_jointsJ [of c]
    by (simp add: nth_eq_iff_index_eq length_jointsJ)
  with jc xyz show ?thesis by auto
qed

lemma joint_coord_absent:
  assumes k: "k < 22" and direct: "\<not> (k = 0 \<and> ''CHip'' \<notin> set (columns data))"
    and ax: "ax = ''_X'' \<or> ax = ''_Y'' \<or> ax = ''_Z''"
    and absent: "butlast (joint_names ! k) @ ax \<notin> set (columns data)"
  shows "\<exists>e. joint_coord data i k (jointsJ (str n) ! k) = Inl e"
proof -
  have "loc data i (butlast (joint_names ! k) @ ax) = Inl KeyError"
    using absent by (rule loc_absent)
  then have "\<not> (\<exists>x y z. joint_coord data i k (jointsJ (str n) ! k) = Inr (x, y, z))"
    using ax by (auto simp: joint_coord_direct [OF k direct] coord3_Inr_iff)
  then show ?thesis
    by (cases "joint_coord data i k (jointsJ (str n) ! k)") auto
qed

lemma joint_coord_root_absent:
  assumes "''CHip'' \<notin> set (columns data)"
    and "hip = ''RHip'' \<or> hip = ''LHip''"
    and ax: "ax = ''_X'' \<or> ax = ''_Y'' \<or> ax = ''_Z''"
    and absent: "hip @ ax \<notin> set (columns data)"
  shows "\<exists>e. joint_coord data i 0 joint = Inl e"
proof -
  have l: "loc data i (hip @ ax) = Inl KeyError"
    using absent by (rule loc_absent)
  have "\<not> (\<exists>x y z. joint_coord data i 0 joint = Inr (x, y, z))"
    using assms(2) ax l
    by (auto simp: joint_coord_root [OF assms(1)] coord3_Inr_iff hip_mid_def split: sum.splits)
  then show ?thesis
    by (cases "joint_coord data i 0 joint") auto
qed

lemma set_skeleton_fails:
  assumes "0 < numFrames" and "k < 22" and "joint_coord data 0 k (jointsJ c ! k) = Inl e"
  shows "snd (set_skeleton data c numFrames) \<noteq> None"
proof -
  obtain m where m: "numFrames = Suc m" using assms(1) by (cases numFrames) auto
  have "snd (place_joints data 0 0 (jointsJ c)) \<noteq> None"
    by (rule place_joints_fails [where k = k and e = e]) (use assms in \<open>simp_all add: length_jointsJ\<close>)
  then show ?thesis
    unfolding set_skeleton_snd m by (rule frames_loop_fails)
qed

section \<open>A table with every marker is reconstructed without error\<close>

lemma CHip_not_XYZ: "''CHip'' \<notin> set (labels_XYZ ls)"
proof -
  have c: "''CHip'' = ''CH'' @ ''ip''" by simp
  have "l @ s \<noteq> ''CHip''" if "s = ''_X'' \<or> s = ''_Y'' \<or> s = ''_Z''" for l s
    unfolding c using that by (auto simp: suffix_eq)
  then show ?thesis
    by (induction ls) (auto simp: labels_XYZ_Cons labels_XYZ_Nil)
qed

lemma loc_XYZ_Inr:
  assumes "columns data = labels_XYZ ls" and "distinct ls" and "l \<in> set ls"
    and "i < length (rows data)" and "length (rows data ! i) = 3 * length ls"
  shows "\<exists>v. loc data i (l @ ''_X'') = Inr v"
    and "\<exists>v. loc data i (l @ ''_Y'') = Inr v"
    and "\<exists>v. loc data i (l @ ''_Z'') = Inr v"
proof -
  from assms(3) obtain j where j: "j < length ls" and l: "ls ! j = l"
    by (auto simp: in_set_conv_nth)
  have len: "length (columns data) = 3 * length ls"
    by (simp add: assms(1) length_labels_XYZ)
  show "\<exists>v. loc data i (l @ ''_X'') = Inr v"
    using loc_XYZ(1) [OF assms(1,2) j assms(4)] j len assms(4,5) by (simp add: l iloc_def)
  show "\<exists>v. loc data i (l @ ''_Y'') = Inr v"
    using loc_XYZ(2) [OF assms(1,2) j assms(4)] j len assms(4,5) by (simp add: l iloc_def)
  show "\<exists>v. loc data i (l @ ''_Z'') = Inr v"
    using loc_XYZ(3) [OF assms(1,2) j assms(4)] j len assms(4,5) by (simp add: l iloc_def)
qed

lemma set_skeleton_ok:
  assumes cols: "columns data = labels_XYZ ls" and dist: "distinct ls"
    and markers: "list_all (\<lambda>nm. butlast nm \<in> set ls) (tl joint_names)"
    and frames: "numFrames \<le> length (rows data)"
    and rect: "list_all (\<lambda>r. length r = 3 * length ls) (rows data)"
  shows "snd (set_skeleton data (str n) numFrames) = None"
proof -
  have no_root: "''CHip'' \<notin> set (columns data)" by (simp add: cols CHip_not_XYZ)
  have m: "butlast nm \<in> set ls" if "nm \<in> set (tl joint_names)" for nm
    using markers that by (simp add: list_all_iff)
  have rhip: "''RHip'' \<in> set ls" using m [of "''RHipJ''"] by (simp add: joint_names_eq)
  have lhip: "''LHip'' \<in> set ls" using m [of "''LHipJ''"] by (simp add: joint_names_eq)
  have place: "snd (place_joints data i 0 (jointsJ (str n))) = None" if i: "i < numFrames" for i
  proof (rule place_joints_ok)
    fix k assume "k < length (jointsJ (str n))"
    then have k: "k < 22" by (simp add: length_jointsJ)
    have ir: "i < length (rows data)" using i frames by simp
    then have len: "length (rows data ! i) = 3 * length ls"
      using rect by (simp add: list_all_length)
    note L = loc_XYZ_Inr [OF cols dist _ ir len]
    show "\<exists>c. joint_coord data i (0 + k) (jointsJ (str n) ! k) = Inr c"
    proof (cases "k = 0")
      case True
      from L [OF rhip] L [OF lhip] obtain ra rb rc la lb lc where
        "loc data i ''RHip_X'' = Inr ra" "loc data i ''RHip_Y'' = Inr rb"
        "loc data i ''RHip_Z'' = Inr rc" "loc data i ''LHip_X'' = Inr la"
        "loc data i ''LHip_Y'' = Inr lb" "loc data i ''LHip_Z'' = Inr lc"
        by auto
      then have "joint_coord data i 0 (jointsJ (str n) ! 0)
          = Inr ((rc + lc) / 2, (ra + la) / 2, (rb + lb) / 2)"
        by (simp add: joint_coord_root [OF no_root])
      then show ?thesis unfolding True by (intro exI) simp
    next
      case False
      then have "joint_names ! k \<in> set (tl joint_names)"
        using k by (cases k) (auto simp: length_joint_names nth_tl in_set_conv_nth)
      then have "butlast (joint_names ! k) \<in> set ls" by (rule m)
      from L [OF this] obtain a b c where
        "loc data i (butlast (joint_names ! k) @ ''_X'') = Inr a"
        "loc data i (butlast (joint_names ! k) @ ''_Y'') = Inr b"
        "loc data i (butlast (joint_names ! k) @ ''_Z'') = Inr c"
        by auto
      then have "joint_coord data i k (jointsJ (str n) ! k) = Inr (c, a, b)"
        using False by (simp add: joint_coord_direct [OF k])
      then show ?thesis by (intro exI) simp
    qed
  qed
  show ?thesis
    unfolding set_skeleton_snd by (rule frames_loop_ok) (use place in simp)
qed

lemma demo_table_run: "snd (set_skeleton demo_table (str n) 2) = None"
proof (rule set_skeleton_ok [where ls = demo_labels])
  show "columns demo_table = labels_XYZ demo_labels" by (simp add: demo_table_def)
  show "distinct demo_labels" by (simp add: demo_labels_def)
  show "list_all (\<lambda>nm. butlast nm \<in> set demo_labels) (tl joint_names)"
    by (simp add: joint_names_eq demo_labels_def)
  show "2 \<le> length (rows demo_table)" by (simp add: demo_table_def)
  show "list_all (\<lambda>r. length r = 3 * length demo_labels) (rows demo_table)"
    by (simp add: demo_table_def demo_labels_def)
qed

section \<open>Root synthesis\<close>

lemma set_skeleton_root_synthesis:
  assumes run: "set_skeleton data (str n) numFrames = (tr, None)"
    and frame: "i < numFrames"
    and no_root: "''CHip'' \<notin> set (columns data)"
    and rhip: "loc data i ''RHip_X'' = Inr ra" "loc data i ''RHip_Y'' = Inr rb"
              "loc data i ''RHip_Z'' = Inr rc"
    and lhip: "loc data i ''LHip_X'' = Inr la" "loc data i ''LHip_Y'' = Inr lb"
              "loc data i ''LHip_Z'' = Inr lc"
  shows "joint_coord data i 0 (''CHipJ'' @ str n)
           = Inr ((rc + lc) / 2, (ra + la) / 2, (rb + lb) / 2)
       \<and> (\<exists>pre post. tr = pre @ [Move ((rc + lc) / 2) ((ra + la) / 2) ((rb + lb) / 2)
                                      (''CHipJ'' @ str n),
                                   SetKeyframe (''CHipJ'' @ str n) i] @ post)"
proof -
  have jc: "joint_coord data i 0 (''CHipJ'' @ str n)
           = Inr ((rc + lc) / 2, (ra + la) / 2, (rb + lb) / 2)"
    using rhip lhip by (simp add: joint_coord_root [OF no_root])
  have j0: "jointsJ (str n) ! 0 = ''CHipJ'' @ str n"
    by (simp add: jointsJ_nth joint_names_0)
  have "0 < length (jointsJ (str n))" by (simp add: length_jointsJ)
  from set_skeleton_frame [OF run frame this] obtain x y z pre post where
    c: "joint_coord data i 0 (''CHipJ'' @ str n) = Inr (x, y, z)"
    and t: "tr = pre @ [Move x y z (''CHipJ'' @ str n), SetKeyframe (''CHipJ'' @ str n) i] @ post"
    unfolding j0 by blast
  from c jc have "x = (rc + lc) / 2" "y = (ra + la) / 2" "z = (rb + lb) / 2" by simp_all
  with t jc show ?thesis by blast
qed

lemma run_eq: "snd r = None \<Longrightarrow> r = (fst r, None)"
  by (cases r) simp

lemma demo_no_root: "''CHip'' \<notin> set (columns demo_table)"
  by (simp add: demo_table_def CHip_not_XYZ)

lemma demo_hips_frame1:
  "loc demo_table 1 ''RHip_X'' = Inr 1011" "loc demo_table 1 ''RHip_Y'' = Inr 1012"
  "loc demo_table 1 ''RHip_Z'' = Inr 1013" "loc demo_table 1 ''LHip_X'' = Inr 1071"
  "loc demo_table 1 ''LHip_Y'' = Inr 1072" "loc demo_table 1 ''LHip_Z'' = Inr 1073"
  by (simp_all add: loc_def iloc_def demo_table_def labels_XYZ_def demo_labels_def)

text \<open>
  C5. When the table has no column \<open>CHip\<close> and holds the two hip markers, then in a run
  that completes the root joint is moved, at every frame \<open>i\<close>, to the componentwise
  average of the frame-\<open>i\<close> samples of \<open>RHip\<close> and \<open>LHip\<close>, remapped: scene X is the
  average of the \<open>_Z\<close> cells (file column 2 of each marker), scene Y of the \<open>_X\<close> cells
  (column 0), scene Z of the \<open>_Y\<close> cells (column 1). The move is followed by the keyframe
  of the root at frame \<open>i\<close>. A table the parser produced never has a column \<open>CHip\<close>: its
  columns all end in \<open>_X\<close>, \<open>_Y\<close> or \<open>_Z\<close>.
\<close>

theorem root_is_hip_midpoint:
  assumes "set_skeleton data (str n) numFrames = (tr, None)"
    and "i < numFrames"
    and "''CHip'' \<notin> set (columns data)"
    and "loc data i ''RHip_X'' = Inr ra" and "loc data i ''RHip_Y'' = Inr rb"
    and "loc data i ''RHip_Z'' = Inr rc"
    and "loc data i ''LHip_X'' = Inr la" and "loc data i ''LHip_Y'' = Inr lb"
    and "loc data i ''LHip_Z'' = Inr lc"
  shows "joint_coord data i 0 (''CHipJ'' @ str n)
           = Inr ((rc + lc) / 2, (ra + la) / 2, (rb + lb) / 2)
       \<and> (\<exists>pre post. tr = pre @ [Move ((rc + lc) / 2) ((ra + la) / 2) ((rb + lb) / 2)
                                      (''CHipJ'' @ str n),
                                   SetKeyframe (''CHipJ'' @ str n) i] @ post)"
  using assms by (rule set_skeleton_root_synthesis)

theorem root_is_hip_midpoint_witness:
  "set_skeleton demo_table (str 1) 2 = (fst (set_skeleton demo_table (str 1) 2), None)
   \<and> (1::nat) < 2
   \<and> ''CHip'' \<notin> set (columns demo_table)
   \<and> loc demo_table 1 ''RHip_X'' = Inr 1011 \<and> loc demo_table 1 ''RHip_Y'' = Inr 1012
   \<and> loc demo_table 1 ''RHip_Z'' = Inr 1013
   \<and> loc demo_table 1 ''LHip_X'' = Inr 1071 \<and> loc demo_table 1 ''LHip_Y'' = Inr 1072
   \<and> loc demo_table 1 ''LHip_Z'' = Inr 1073
   \<and> joint_coord demo_table 1 0 (''CHipJ'' @ str 1) = Inr (1043, 1041, 1042)
   \<and> (\<exists>pre post. fst (set_skeleton demo_table (str 1) 2)
          = pre @ [Move 1043 1041 1042 (''CHipJ'' @ str 1), SetKeyframe (''CHipJ'' @ str 1) 1] @ post)"
proof -
  have run: "set_skeleton demo_table (str 1) 2 = (fst (set_skeleton demo_table (str 1) 2), None)"
    by (rule run_eq) (rule demo_table_run)
  have fr: "(1::nat) < 2" by simp
  from root_is_hip_midpoint [OF run fr demo_no_root demo_hips_frame1]
  have "joint_coord demo_table 1 0 (''CHipJ'' @ str 1) = Inr (1043, 1041, 1042)
   \<and> (\<exists>pre post. fst (set_skeleton demo_table (str 1) 2)
          = pre @ [Move 1043 1041 1042 (''CHipJ'' @ str 1), SetKeyframe (''CHipJ'' @ str 1) 1] @ post)"
    by simp
  with run fr demo_no_root demo_hips_frame1 show ?thesis by (simp only: simp_thms)
qed

section \<open>Name normalization\<close>

text \<open>
  C7 (as amended). For a joint identifier \<open>label + 'J' + str(n)\<close> the normalization of
  line 188 returns the label with every digit character deleted; it is the original label
  when the label holds no digit.
\<close>

theorem jnt_of_strips_all_digits:
  "jnt_of (label @ ''J'' @ str n) = re_sub_digits label
   \<and> (set label \<inter> set ''0123456789'' = {} \<longrightarrow> jnt_of (label @ ''J'' @ str n) = label)"
  using jnt_of_joint [of label n] re_sub_digits_id [of label] by (simp only:) blast

theorem jnt_of_strips_all_digits_witness:
  "set ''RKnee'' \<inter> set ''0123456789'' = {} \<and> jnt_of (''RKnee'' @ ''J'' @ str 12) = ''RKnee''"
  using jnt_of_strips_all_digits [of "''RKnee''" 12] by (simp add: re_sub_digits_def)

text \<open>
  C7 as stated fails for a label with a digit: the joint \<open>M1J1\<close> of the marker \<open>M1\<close> is
  normalized to \<open>M\<close>.
\<close>

theorem jnt_of_label_with_digit: "jnt_of (''M1'' @ ''J'' @ str 1) = ''M'' \<and> ''M'' \<noteq> ''M1''"
  using jnt_of_joint [of "''M1''" 1] by (simp add: re_sub_digits_def)

section \<open>The orientation pass\<close>

lemma distinct_count_tl:
  "distinct xs \<Longrightarrow> count_list (tl xs) x = (if x \<in> set (tl xs) then 1 else 0)"
  by (rule distinct_count_list) (simp add: distinct_tl)

lemma set_skeleton_no_frame: "set_skeleton data c 0 = create_joints c"
proof -
  obtain ev where "create_joints c = (ev, None)"
    using create_joints_ok [of c] by (cases "create_joints c") auto
  then show ?thesis by (simp add: set_skeleton_def)
qed

lemma failed_first_frame_no_orient:
  assumes "snd (place_joints data 0 0 (jointsJ c)) \<noteq> None"
  shows "OrientParentOf jn \<notin> set (fst (set_skeleton data c numFrames))"
proof
  assume "OrientParentOf jn \<in> set (fst (set_skeleton data c numFrames))"
  then have "OrientParentOf jn \<in> set (fst (frames_loop data (jointsJ c) 0 numFrames))"
    using create_joints_no_orient [of jn c] by (simp add: set_skeleton_fst)
  from frames_loop_events [OF this] assms place_joints_no_orient show False by auto
qed

lemma RHipJ1_non_root: "''RHipJ1'' \<in> set (tl (jointsJ (str 1)))"
proof -
  have "str 1 = ''1''" by (simp add: str.simps digit_char_def)
  then show ?thesis by (simp add: jointsJ_names joint_names_eq)
qed

lemma hip_only_root_fails:
  "\<exists>e. joint_coord hip_only_table 0 0 (jointsJ (str 1) ! 0) = Inl e"
proof -
  have no_root: "''CHip'' \<notin> set (columns hip_only_table)"
    by (simp add: hip_only_table_def)
  have "''RHip_Z'' \<notin> set (columns hip_only_table)"
    by (simp add: hip_only_table_def)
  then have l: "loc hip_only_table 0 ''RHip_Z'' = Inl KeyError" by (rule loc_absent)
  have "\<not> (\<exists>x y z. joint_coord hip_only_table 0 0 (jointsJ (str 1) ! 0) = Inr (x, y, z))"
    using l
    by (auto simp: joint_coord_root [OF no_root] coord3_Inr_iff hip_mid_def split: sum.splits)
  then show ?thesis
    by (cases "joint_coord hip_only_table 0 0 (jointsJ (str 1) ! 0)") auto
qed

text \<open>
  C8 (as amended). In a run that completes on at least one frame, the calls are: the joint creation,
  the placement of frame 0 (\<open>p0\<close>, which holds a move for every joint), the orientation
  pass, and the calls of the later frames (\<open>rest\<close>, whose keyframes are all at frames
  \<open>t > 0\<close>). No orientation call stands outside the pass, and the pass orients the parent
  of each non-root joint exactly once (followed by that joint's keyframe at frame 0) and
  of the root never.
\<close>

theorem orientation_pass_once:
  assumes run: "set_skeleton data (str n) numFrames = (tr, None)" and frames: "0 < numFrames"
  shows "\<exists>p0 rest.
      place_joints data 0 0 (jointsJ (str n)) = (p0, None)
    \<and> tr = fst (create_joints (str n)) @ p0 @ orient_joints 0 (jointsJ (str n)) @ rest
    \<and> list_all (\<lambda>joint. \<exists>x y z. Move x y z joint \<in> set p0) (jointsJ (str n))
    \<and> (\<forall>joint. OrientParentOf joint \<notin> set (fst (create_joints (str n)) @ p0 @ rest))
    \<and> (\<forall>joint t. SetKeyframe joint t \<in> set rest \<longrightarrow> 0 < t)
    \<and> (\<forall>joint. count_list tr (OrientParentOf joint)
          = (if joint \<in> set (tl (jointsJ (str n))) then 1 else 0))
    \<and> tl (jointsJ (str n)) = map (\<lambda>nm. nm @ str n) (tl joint_names)"
proof -
  let ?js = "jointsJ (str n)"
  let ?cr = "fst (create_joints (str n))"
  obtain m where m: "numFrames = Suc m" using frames by (cases numFrames) auto
  let ?rest = "fst (frames_loop data ?js 1 m)"
  from run have fl: "snd (frames_loop data ?js 0 numFrames) = None"
    and tr: "tr = ?cr @ fst (frames_loop data ?js 0 numFrames)"
    using set_skeleton_snd [of data "str n" numFrames] set_skeleton_fst [of data "str n" numFrames]
    by simp_all
  have ps: "snd (place_joints data 0 0 ?js) = None"
  proof (rule ccontr)
    assume "snd (place_joints data 0 0 ?js) \<noteq> None"
    then have "snd (frames_loop data ?js 0 (Suc m)) \<noteq> None" by (rule frames_loop_fails)
    with fl m show False by simp
  qed
  then obtain p0 where p0: "place_joints data 0 0 ?js = (p0, None)"
    by (cases "place_joints data 0 0 ?js") auto
  have fr: "fst (frames_loop data ?js 0 numFrames) = p0 @ orient_joints 0 ?js @ ?rest"
    unfolding m using p0 by simp
  have dec: "tr = ?cr @ p0 @ orient_joints 0 ?js @ ?rest" using tr fr by simp
  have moves: "list_all (\<lambda>joint. \<exists>x y z. Move x y z joint \<in> set p0) ?js"
    unfolding list_all_length
  proof (intro allI impI)
    fix k assume "k < length ?js"
    from place_joints_step [OF p0 this] obtain x y z pre post where
      "p0 = pre @ [Move x y z (?js ! k), SetKeyframe (?js ! k) 0] @ post" by blast
    then have "Move x y z (?js ! k) \<in> set p0" by simp
    then show "\<exists>x y z. Move x y z (?js ! k) \<in> set p0" by blast
  qed
  have no_p0: "OrientParentOf joint \<notin> set p0" for joint
    using place_joints_no_orient [of joint data 0 0 ?js] p0 by simp
  have no_rest: "OrientParentOf joint \<notin> set ?rest" for joint
    by (rule frames_loop_later_no_orient) simp
  have no_cr: "OrientParentOf joint \<notin> set ?cr" for joint
    by (rule create_joints_no_orient)
  have keys: "0 < t" if "SetKeyframe joint t \<in> set ?rest" for joint t
    using frames_loop_later_keys [OF _ that] by simp
  have cnt: "count_list tr (OrientParentOf joint) = (if joint \<in> set (tl ?js) then 1 else 0)"
    for joint
  proof -
    have z: "count_list ?cr (OrientParentOf joint) = 0" "count_list p0 (OrientParentOf joint) = 0"
      "count_list ?rest (OrientParentOf joint) = 0"
      by (rule count_list_notin, rule no_cr, rule count_list_notin, rule no_p0,
          rule count_list_notin, rule no_rest)
    have "count_list tr (OrientParentOf joint) = count_list (tl ?js) joint"
      unfolding dec
      by (simp only: count_list_append z orient_joints_def count_orient add_0 add_0_right)
    then show ?thesis by (simp add: distinct_count_tl [OF distinct_jointsJ])
  qed
  have tls: "tl ?js = map (\<lambda>nm. nm @ str n) (tl joint_names)"
    by (simp add: jointsJ_names map_tl)
  from p0 dec moves no_cr no_p0 no_rest keys cnt tls show ?thesis
    by (intro exI [of _ p0] exI [of _ ?rest]) simp
qed

theorem orientation_pass_once_witness:
  "set_skeleton demo_table (str 1) 2 = (fst (set_skeleton demo_table (str 1) 2), None)
   \<and> (0::nat) < 2
   \<and> (\<exists>p0 rest.
      place_joints demo_table 0 0 (jointsJ (str 1)) = (p0, None)
    \<and> fst (set_skeleton demo_table (str 1) 2)
        = fst (create_joints (str 1)) @ p0 @ orient_joints 0 (jointsJ (str 1)) @ rest
    \<and> list_all (\<lambda>joint. \<exists>x y z. Move x y z joint \<in> set p0) (jointsJ (str 1))
    \<and> (\<forall>joint. OrientParentOf joint \<notin> set (fst (create_joints (str 1)) @ p0 @ rest))
    \<and> (\<forall>joint t. SetKeyframe joint t \<in> set rest \<longrightarrow> 0 < t)
    \<and> (\<forall>joint. count_list (fst (set_skeleton demo_table (str 1) 2)) (OrientParentOf joint)
          = (if joint \<in> set (tl (jointsJ (str 1))) then 1 else 0))
    \<and> tl (jointsJ (str 1)) = map (\<lambda>nm. nm @ str 1) (tl joint_names))"
proof -
  have run: "set_skeleton demo_table (str 1) 2 = (fst (set_skeleton demo_table (str 1) 2), None)"
    by (rule run_eq) (rule demo_table_run)
  have fr: "(0::nat) < 2" by simp
  from run fr orientation_pass_once [OF run fr] show ?thesis by (simp only: simp_thms)
qed

text \<open>
  C8 as stated fails for a run without a completed first frame. With no frame the loop body
  is never entered: the run completes on a table that names every marker, and the parent of
  the non-root joint \<open>RHipJ1\<close> is oriented zero times, not once. With one frame and a table
  that lacks a hip column, the lookup for the root raises before the orientation pass is
  reached, and again no orientation call is made.
\<close>

theorem no_orientation_without_first_frame:
  "''RHipJ1'' \<in> set (tl (jointsJ (str 1)))
   \<and> snd (set_skeleton frameless_table (str 1) 0) = None
   \<and> count_list (fst (set_skeleton frameless_table (str 1) 0)) (OrientParentOf ''RHipJ1'') = 0
   \<and> snd (set_skeleton hip_only_table (str 1) 1) \<noteq> None
   \<and> count_list (fst (set_skeleton hip_only_table (str 1) 1)) (OrientParentOf ''RHipJ1'') = 0"
proof -
  have a: "snd (set_skeleton frameless_table (str 1) 0) = None"
    unfolding set_skeleton_no_frame by (rule create_joints_ok)
  have b: "count_list (fst (set_skeleton frameless_table (str 1) 0)) (OrientParentOf ''RHipJ1'') = 0"
    unfolding set_skeleton_no_frame by (rule count_list_notin) (rule create_joints_no_orient)
  from hip_only_root_fails obtain e where
    e: "joint_coord hip_only_table 0 0 (jointsJ (str 1) ! 0) = Inl e" by blast
  have p: "snd (place_joints hip_only_table 0 0 (jointsJ (str 1))) \<noteq> None"
    by (rule place_joints_fails [where k = 0 and e = e]) (use e in \<open>simp_all add: length_jointsJ\<close>)
  then have c: "snd (set_skeleton hip_only_table (str 1) 1) \<noteq> None"
    unfolding set_skeleton_snd One_nat_def by (rule frames_loop_fails)
  have d: "count_list (fst (set_skeleton hip_only_table (str 1) 1)) (OrientParentOf ''RHipJ1'') = 0"
    by (rule count_list_notin) (rule failed_first_frame_no_orient [OF p])
  from RHipJ1_non_root a b c d show ?thesis by (simp only: simp_thms)
qed

section \<open>A missing marker\<close>

lemma required_absent:
  assumes "k < 22" and "c \<in> set (required_columns data k)" and "c \<notin> set (columns data)"
  shows "\<exists>e. joint_coord data i k (jointsJ (str n) ! k) = Inl e"
proof (cases "k = 0 \<and> ''CHip'' \<notin> set (columns data)")
  case True
  then have k0: "k = 0" and no_root: "''CHip'' \<notin> set (columns data)" by simp_all
  have mem: "c \<in> set [''RHip_Z'', ''LHip_Z'', ''RHip_X'', ''LHip_X'', ''RHip_Y'', ''LHip_Y'']"
    using assms(2) True by (simp add: required_columns_def)
  have l: "loc data i c = Inl KeyError" using assms(3) by (rule loc_absent)
  have "\<not> (\<exists>x y z. joint_coord data i 0 (jointsJ (str n) ! 0) = Inr (x, y, z))"
    using mem l
    by (auto simp: joint_coord_root [OF no_root] coord3_Inr_iff hip_mid_def split: sum.splits)
  then show ?thesis
    unfolding k0 by (cases "joint_coord data i 0 (jointsJ (str n) ! 0)") auto
next
  case False
  with assms(2) obtain ax where "c = butlast (joint_names ! k) @ ax"
    "ax = ''_X'' \<or> ax = ''_Y'' \<or> ax = ''_Z''"
    by (auto simp: required_columns_def)
  with joint_coord_absent [OF assms(1) False, of ax i n] assms(3) show ?thesis by simp
qed

text \<open>
  C9 (as amended). When there is at least one frame and one of the columns that the
  coordinate of a joint is read from is absent from the table, the run ends with an
  exception and no move is ever issued for that joint.
\<close>

theorem missing_marker_fails:
  assumes "0 < numFrames" and "k < 22"
    and "c \<in> set (required_columns data k)" and "c \<notin> set (columns data)"
  shows "snd (set_skeleton data (str n) numFrames) \<noteq> None
       \<and> (\<forall>x y z. Move x y z (joint_names ! k @ str n)
               \<notin> set (fst (set_skeleton data (str n) numFrames)))"
proof -
  from required_absent [OF assms(2-4)] obtain e where
    "joint_coord data 0 k (jointsJ (str n) ! k) = Inl e" by blast
  from set_skeleton_fails [OF assms(1,2) this]
  have a: "snd (set_skeleton data (str n) numFrames) \<noteq> None" .
  have b: "Move x y z (joint_names ! k @ str n) \<notin> set (fst (set_skeleton data (str n) numFrames))"
    for x y z
  proof
    assume "Move x y z (joint_names ! k @ str n) \<in> set (fst (set_skeleton data (str n) numFrames))"
    then have "Move x y z (jointsJ (str n) ! k) \<in> set (fst (set_skeleton data (str n) numFrames))"
      by (simp add: jointsJ_nth [OF assms(2)])
    from set_skeleton_move [OF this assms(2)] obtain i where
      "joint_coord data i k (jointsJ (str n) ! k) = Inr (x, y, z)" by blast
    with required_absent [OF assms(2-4), of i n] show False by auto
  qed
  from a b show ?thesis by blast
qed

theorem missing_marker_fails_witness:
  "(0::nat) < 1 \<and> (2::nat) < 22
   \<and> ''RKnee_Z'' \<in> set (required_columns hip_only_table 2)
   \<and> ''RKnee_Z'' \<notin> set (columns hip_only_table)
   \<and> snd (set_skeleton hip_only_table (str 1) 1) \<noteq> None
   \<and> (\<forall>x y z. Move x y z (joint_names ! 2 @ str 1)
           \<notin> set (fst (set_skeleton hip_only_table (str 1) 1)))"
proof -
  have h1: "(0::nat) < 1" and h2: "(2::nat) < 22" by simp_all
  have h3: "''RKnee_Z'' \<in> set (required_columns hip_only_table 2)"
    by (simp add: required_columns_def joint_names_eq)
  have h4: "''RKnee_Z'' \<notin> set (columns hip_only_table)"
    by (simp add: hip_only_table_def)
  from h1 h2 h3 h4 missing_marker_fails [OF h1 h2 h3 h4, of 1] show ?thesis
    by (simp only: simp_thms)
qed

text \<open>
  C9 as stated fails when there is no frame: the joints are created, nothing is looked up
  and the run completes, although no marker column exists.
\<close>

theorem zero_frames_complete_without_markers:
  "''RKnee_Z'' \<in> set (required_columns empty_table 2)
   \<and> ''RKnee_Z'' \<notin> set (columns empty_table)
   \<and> set_skeleton empty_table (str 1) 0 = create_joints (str 1)
   \<and> snd (create_joints (str 1)) = None"
proof -
  obtain ev where c: "create_joints (str 1) = (ev, None)"
    using create_joints_ok [of "str 1"] by (cases "create_joints (str 1)") auto
  have "set_skeleton empty_table (str 1) 0 = create_joints (str 1)"
    unfolding set_skeleton_def c by simp
  moreover have "''RKnee_Z'' \<in> set (required_columns empty_table 2)"
    by (simp add: required_columns_def joint_names_eq)
  moreover have "''RKnee_Z'' \<notin> set (columns empty_table)"
    by (simp add: empty_table_def)
  ultimately show ?thesis using create_joints_ok [of "str 1"] by simp
qed

section \<open>A table with a root marker\<close>

lemma chip_table_run: "snd (set_skeleton chip_table (str n) 1) = None"
proof (rule set_skeleton_ok [where ls = chip_labels])
  show "columns chip_table = labels_XYZ chip_labels" by (simp add: chip_table_def)
  show "distinct chip_labels" by (simp add: chip_labels_def demo_labels_def)
  show "list_all (\<lambda>nm. butlast nm \<in> set chip_labels) (tl joint_names)"
    by (simp add: joint_names_eq chip_labels_def demo_labels_def)
  show "1 \<le> length (rows chip_table)" by (simp add: chip_table_def)
  show "list_all (\<lambda>r. length r = 3 * length chip_labels) (rows chip_table)"
    by (simp add: chip_table_def chip_labels_def demo_labels_def)
qed

lemma chip_no_root: "''CHip'' \<notin> set (columns chip_table)"
  by (simp add: chip_table_def CHip_not_XYZ)

lemma chip_frame0:
  "loc chip_table 0 ''CHip_X'' = Inr 11" "loc chip_table 0 ''CHip_Y'' = Inr 12"
  "loc chip_table 0 ''CHip_Z'' = Inr 13"
  "loc chip_table 0 ''RHip_X'' = Inr 21" "loc chip_table 0 ''RHip_Y'' = Inr 22"
  "loc chip_table 0 ''RHip_Z'' = Inr 23" "loc chip_table 0 ''LHip_X'' = Inr 81"
  "loc chip_table 0 ''LHip_Y'' = Inr 82" "loc chip_table 0 ''LHip_Z'' = Inr 83"
  by (simp_all add: loc_def iloc_def chip_table_def labels_XYZ_def chip_labels_def demo_labels_def)

lemma chip_later_frames: "0 < i \<Longrightarrow> loc chip_table i c = Inl KeyError"
  by (simp add: loc_def chip_table_def)

text \<open>
  C2 (evaluation at the failing input). The table holds a \<open>CHip\<close> marker at
  \<open>(11, 12, 13)\<close>, so the direct lookup would place the root at \<open>(13, 11, 12)\<close>. The test of line 182 asks
  for a column named \<open>CHip\<close>, and the columns are \<open>CHip_X\<close>, \<open>CHip_Y\<close>, \<open>CHip_Z\<close>: the
  run completes, the root is moved to the midpoint \<open>(53, 51, 52)\<close> of the hips and never
  to \<open>(13, 11, 12)\<close>.
\<close>

theorem root_synthesised_despite_CHip_marker:
  "''CHip_X'' \<in> set (columns chip_table)
   \<and> coord3 (loc chip_table 0 ''CHip_Z'') (loc chip_table 0 ''CHip_X'')
         (loc chip_table 0 ''CHip_Y'') = Inr (13, 11, 12)
   \<and> snd (set_skeleton chip_table (str 1) 1) = None
   \<and> joint_coord chip_table 0 0 (''CHipJ'' @ str 1) = Inr (53, 51, 52)
   \<and> (\<exists>pre post. fst (set_skeleton chip_table (str 1) 1)
          = pre @ [Move 53 51 52 (''CHipJ'' @ str 1), SetKeyframe (''CHipJ'' @ str 1) 0] @ post)
   \<and> Move 13 11 12 (''CHipJ'' @ str 1) \<notin> set (fst (set_skeleton chip_table (str 1) 1))"
proof -
  have a: "''CHip_X'' \<in> set (columns chip_table)"
    by (simp add: chip_table_def labels_XYZ_def chip_labels_def)
  have b: "coord3 (loc chip_table 0 ''CHip_Z'') (loc chip_table 0 ''CHip_X'')
         (loc chip_table 0 ''CHip_Y'') = Inr (13, 11, 12)"
    by (simp add: chip_frame0)
  have run: "set_skeleton chip_table (str 1) 1 = (fst (set_skeleton chip_table (str 1) 1), None)"
    by (rule run_eq) (rule chip_table_run)
  have fr: "(0::nat) < 1" by simp
  from set_skeleton_root_synthesis [OF run fr chip_no_root chip_frame0(4-9)]
  have c: "joint_coord chip_table 0 0 (''CHipJ'' @ str 1) = Inr (53, 51, 52)
     \<and> (\<exists>pre post. fst (set_skeleton chip_table (str 1) 1)
          = pre @ [Move 53 51 52 (''CHipJ'' @ str 1), SetKeyframe (''CHipJ'' @ str 1) 0] @ post)"
    by simp
  have d: "Move 13 11 12 (''CHipJ'' @ str 1) \<notin> set (fst (set_skeleton chip_table (str 1) 1))"
  proof
    assume "Move 13 11 12 (''CHipJ'' @ str 1) \<in> set (fst (set_skeleton chip_table (str 1) 1))"
    then have "Move 13 11 12 (jointsJ (str 1) ! 0) \<in> set (fst (set_skeleton chip_table (str 1) 1))"
      by (simp add: jointsJ_nth joint_names_0)
    from set_skeleton_move [OF this] obtain i where
      i: "joint_coord chip_table i 0 (jointsJ (str 1) ! 0) = Inr (13, 11, 12)" by auto
    then have h: "hip_mid chip_table i ''RHip_Z'' ''LHip_Z'' = Inr 13"
      by (simp add: joint_coord_root [OF chip_no_root] coord3_Inr_iff)
    show False
    proof (cases "i = 0")
      case True
      with h show False by (simp add: chip_frame0)
    next
      case False
      then have "loc chip_table i ''RHip_Z'' = Inl KeyError" by (simp add: chip_later_frames)
      with h show False by (simp add: hip_mid_def)
    qed
  qed
  from a b chip_table_run [of 1] c d show ?thesis by (simp only: simp_thms)
qed

section \<open>The calls of the marker placement engine\<close>











section \<open>Axis remapping\<close>







section \<open>Header names\<close>

lemma lt10: "(d::nat) < 10 \<Longrightarrow> d = 0 \<or> d = 1 \<or> d = 2 \<or> d = 3 \<or> d = 4 \<or> d = 5 \<or> d = 6
    \<or> d = 7 \<or> d = 8 \<or> d = 9"
proof -
  assume "d < 10"
  then have "d \<in> set [0..<10]" by simp
  also have "[0..<10] = [0, 1, 2, 3, 4, 5, 6, 7, 8, 9::nat]" by (simp add: upt_rec)
  finally show ?thesis by simp
qed

lemma digit_value: "d < 10 \<Longrightarrow> of_char (digit_char d) - 48 = (d::nat)"
  by (drule lt10) (elim disjE; simp add: digit_char_def)

lemma decimal_value_snoc:
  "decimal_value (s @ [c]) = 10 * decimal_value s + (of_char c - 48)"
  by (simp add: decimal_value_def)

lemma decimal_value_str: "decimal_value (str n) = n"
proof (induction n rule: str.induct)
  case (1 n)
  show ?case
  proof (cases "n < 10")
    case True
    then have "str n = [digit_char n]" by (subst str.simps) simp
    then have "decimal_value (str n) = of_char (digit_char n) - 48"
      by (simp add: decimal_value_def)
    then show ?thesis by (simp only: digit_value [OF True])
  next
    case False
    then have s: "str n = str (n div 10) @ [digit_char (n mod 10)]" by (subst str.simps) simp
    have m: "n mod 10 < 10" by simp
    have "decimal_value (str n) = 10 * decimal_value (str (n div 10)) + n mod 10"
      by (simp only: s decimal_value_snoc digit_value [OF m])
    also have "\<dots> = 10 * (n div 10) + n mod 10" by (simp only: 1 [OF False])
    finally show ?thesis by simp
  qed
qed

lemma str_inj: "str m = str n \<Longrightarrow> m = n"
proof -
  assume "str m = str n"
  then have "decimal_value (str m) = decimal_value (str n)" by (rule arg_cong)
  then show "m = n" by (simp only: decimal_value_str)
qed

lemma counts_get_set: "counts_get (counts_set d k v) k' = (if k' = k then v else counts_get d k')"
  by (induction d) auto

lemma mangle_while_new: "counts_get counts nm = 0 \<Longrightarrow> mangle_while counts nm = (counts, nm)"
  by (subst mangle_while.simps) simp

lemma header_loop_distinct:
  assumes "distinct (unnamed i ws)"
    and "\<And>nm. nm \<in> set (unnamed i ws) \<Longrightarrow> counts_get counts nm = 0"
  shows "header_loop counts i ws = unnamed i ws"
  using assms
proof (induction ws arbitrary: i counts)
  case Nil
  show ?case by simp
next
  case (Cons w ws)
  let ?nm = "if w = [] then ''Unnamed: '' @ str i else w"
  have u: "unnamed i (w # ws) = ?nm # unnamed (Suc i) ws" by simp
  have fresh: "counts_get counts ?nm = 0" using Cons.prems(2) [of ?nm] by simp
  have d: "distinct (unnamed (Suc i) ws)" and notin: "?nm \<notin> set (unnamed (Suc i) ws)"
    using Cons.prems(1) by simp_all
  have "header_loop (counts_set counts ?nm 1) (Suc i) ws = unnamed (Suc i) ws"
  proof (rule Cons.IH [OF d])
    fix nm assume nm: "nm \<in> set (unnamed (Suc i) ws)"
    then have "nm \<noteq> ?nm" using notin by auto
    moreover have "counts_get counts nm = 0" using Cons.prems(2) [of nm] nm by simp
    ultimately show "counts_get (counts_set counts ?nm 1) nm = 0"
      by (simp add: counts_get_set)
  qed
  then show ?case
    unfolding u header_loop.simps Let_def mangle_while_new [OF fresh] by simp
qed

lemma header_names_distinct: "distinct (unnamed 0 ws) \<Longrightarrow> header_names ws = unnamed 0 ws"
  unfolding header_names_def by (rule header_loop_distinct) simp_all

section \<open>The header row of a trajectory file\<close>

lemma unnamed_triples_Cons:
  "l \<noteq> [] \<Longrightarrow>
   unnamed i (concat (map (\<lambda>l. [l, [], []]) (l # ls)))
     = l # (''Unnamed: '' @ str (Suc i)) # (''Unnamed: '' @ str (Suc (Suc i)))
         # unnamed (Suc (Suc (Suc i))) (concat (map (\<lambda>l. [l, [], []]) ls))"
  by simp

lemma unnamed_Nil_iff: "unnamed i ws = [] \<longleftrightarrow> ws = []"
  by (cases ws) simp_all

lemma every3_butlast_unnamed:
  "[] \<notin> set ls \<Longrightarrow>
   every3 (butlast (unnamed i (concat (map (\<lambda>l. [l, [], []]) ls)))) = ls"
proof (induction ls arbitrary: i)
  case Nil
  show ?case by simp
next
  case (Cons l ls)
  then have l: "l \<noteq> []" and ls: "[] \<notin> set ls" by auto
  show ?case
  proof (cases ls)
    case Nil
    then show ?thesis using l by simp
  next
    case (Cons l' ls')
    then have ne: "unnamed (Suc (Suc (Suc i))) (concat (map (\<lambda>l. [l, [], []]) ls)) \<noteq> []"
      by (simp add: unnamed_Nil_iff)
    show ?thesis
      unfolding unnamed_triples_Cons [OF l]
      using ne Cons.IH [OF ls, of "Suc (Suc (Suc i))"] by simp
  qed
qed

lemma unnamed_triples_mem:
  "[] \<notin> set ls \<Longrightarrow> x \<in> set (unnamed i (concat (map (\<lambda>l. [l, [], []]) ls))) \<Longrightarrow>
   x \<in> set ls \<or> (\<exists>k>i. x = ''Unnamed: '' @ str k)"
proof (induction ls arbitrary: i)
  case Nil
  then show ?case by simp
next
  case (Cons l ls)
  then have l: "l \<noteq> []" and ls: "[] \<notin> set ls" by auto
  from Cons.prems(2) have "x = l \<or> x = ''Unnamed: '' @ str (Suc i)
      \<or> x = ''Unnamed: '' @ str (Suc (Suc i))
      \<or> x \<in> set (unnamed (Suc (Suc (Suc i))) (concat (map (\<lambda>l. [l, [], []]) ls)))"
    unfolding unnamed_triples_Cons [OF l] by simp
  then consider "x = l" | "x = ''Unnamed: '' @ str (Suc i)"
    | "x = ''Unnamed: '' @ str (Suc (Suc i))"
    | "x \<in> set (unnamed (Suc (Suc (Suc i))) (concat (map (\<lambda>l. [l, [], []]) ls)))"
    by blast
  then show ?case
  proof cases
    case 1 then show ?thesis by simp
  next
    case 2
    have "Suc i > i" by simp
    with 2 show ?thesis by blast
  next
    case 3
    have "Suc (Suc i) > i" by simp
    with 3 show ?thesis by blast
  next
    case 4
    from Cons.IH [OF ls 4] show ?thesis
    proof
      assume "x \<in> set ls" then show ?thesis by simp
    next
      assume "\<exists>k>Suc (Suc (Suc i)). x = ''Unnamed: '' @ str k"
      then obtain k where "k > Suc (Suc (Suc i))" "x = ''Unnamed: '' @ str k" by blast
      then have "k > i" "x = ''Unnamed: '' @ str k" by simp_all
      then show ?thesis by blast
    qed
  qed
qed

lemma unnamed_eq: "''Unnamed: '' @ str j = ''Unnamed: '' @ str k \<longleftrightarrow> j = k"
  using str_inj [of j k] by auto

lemma distinct_unnamed_triples:
  assumes "distinct ls" and "[] \<notin> set ls"
    and "list_all (\<lambda>l. take 9 l \<noteq> ''Unnamed: '') ls"
  shows "distinct (unnamed i (concat (map (\<lambda>l. [l, [], []]) ls)))"
  using assms
proof (induction ls arbitrary: i)
  case Nil
  show ?case by simp
next
  case (Cons l ls)
  then have l: "l \<noteq> []" and ls: "[] \<notin> set ls" and d: "distinct ls" and lnot: "l \<notin> set ls"
    and pl: "take 9 l \<noteq> ''Unnamed: ''"
    and pls: "list_all (\<lambda>l. take 9 l \<noteq> ''Unnamed: '') ls"
    by auto
  let ?rest = "unnamed (Suc (Suc (Suc i))) (concat (map (\<lambda>l. [l, [], []]) ls))"
  have lab: "''Unnamed: '' @ str k \<notin> set ls" for k
  proof
    assume mem: "''Unnamed: '' @ str k \<in> set ls"
    from pls have "\<forall>l\<in>set ls. take 9 l \<noteq> ''Unnamed: ''" by (simp only: list_all_iff)
    with mem have "take 9 (''Unnamed: '' @ str k) \<noteq> ''Unnamed: ''" by blast
    then show False by simp
  qed
  have lu: "l \<noteq> ''Unnamed: '' @ str k" for k
    using pl by auto
  have r: "distinct ?rest" by (rule Cons.IH [OF d ls pls])
  have m: "x \<in> set ?rest \<Longrightarrow> x \<in> set ls \<or> (\<exists>k>Suc (Suc (Suc i)). x = ''Unnamed: '' @ str k)" for x
    by (rule unnamed_triples_mem [OF ls])
  have a: "l \<notin> set ?rest" using m [of l] lnot lu by blast
  have b: "''Unnamed: '' @ str (Suc i) \<notin> set ?rest"
  proof
    assume "''Unnamed: '' @ str (Suc i) \<in> set ?rest"
    from m [OF this] lab [of "Suc i"] obtain k where k: "k > Suc (Suc (Suc i))"
      and "''Unnamed: '' @ str (Suc i) = ''Unnamed: '' @ str k" by blast
    then have "Suc i = k" by (simp only: unnamed_eq)
    with k show False by simp
  qed
  have c: "''Unnamed: '' @ str (Suc (Suc i)) \<notin> set ?rest"
  proof
    assume "''Unnamed: '' @ str (Suc (Suc i)) \<in> set ?rest"
    from m [OF this] lab [of "Suc (Suc i)"] obtain k where k: "k > Suc (Suc (Suc i))"
      and "''Unnamed: '' @ str (Suc (Suc i)) = ''Unnamed: '' @ str k" by blast
    then have "Suc (Suc i) = k" by (simp only: unnamed_eq)
    with k show False by simp
  qed
  have e: "''Unnamed: '' @ str (Suc i) \<noteq> ''Unnamed: '' @ str (Suc (Suc i))"
    by (simp only: unnamed_eq)
  show ?case
    unfolding unnamed_triples_Cons [OF l] distinct.simps set_simps insert_iff
    using a b c e r lu [of "Suc i"] lu [of "Suc (Suc i)"] by blast
qed

section \<open>Parsing a file in the standard layout\<close>

lemma drop2_butlast: "drop 2 (butlast (a # b # xs)) = butlast xs"
  by (cases xs) simp_all

lemma header_row_names:
  assumes "distinct ls" and "[] \<notin> set ls" and "''Frame#'' \<notin> set ls" and "''Time'' \<notin> set ls"
    and "list_all (\<lambda>l. take 9 l \<noteq> ''Unnamed: '') ls"
  shows "every3 (drop 2 (butlast (header_names
           (''Frame#'' # ''Time'' # concat (map (\<lambda>l. [l, [], []]) ls))))) = ls"
proof -
  let ?t = "concat (map (\<lambda>l. [l, [], []]) ls)"
  let ?u = "unnamed (Suc (Suc 0)) ?t"
  have u: "unnamed 0 (''Frame#'' # ''Time'' # ?t) = ''Frame#'' # ''Time'' # ?u" by simp
  have m: "x \<in> set ?u \<Longrightarrow> x \<in> set ls \<or> (\<exists>k>Suc (Suc 0). x = ''Unnamed: '' @ str k)" for x
    by (rule unnamed_triples_mem [OF assms(2)])
  have f: "''Frame#'' \<notin> set ?u" using m [of "''Frame#''"] assms(3) by auto
  have t: "''Time'' \<notin> set ?u" using m [of "''Time''"] assms(4) by auto
  have d: "distinct ?u" by (rule distinct_unnamed_triples [OF assms(1,2,5)])
  have "distinct (unnamed 0 (''Frame#'' # ''Time'' # ?t))"
    unfolding u using f t d by simp
  then have "header_names (''Frame#'' # ''Time'' # ?t) = ''Frame#'' # ''Time'' # ?u"
    unfolding u [symmetric] by (rule header_names_distinct)
  then show ?thesis
    by (simp only: drop2_butlast every3_butlast_unnamed [OF assms(2)])
qed

lemma mem_labels_XYZ:
  "x \<in> set (labels_XYZ ls) \<longleftrightarrow> (\<exists>l\<in>set ls. x = l @ ''_X'' \<or> x = l @ ''_Y'' \<or> x = l @ ''_Z'')"
  by (induction ls) (auto simp: labels_XYZ_Cons labels_XYZ_Nil)

lemma distinct_labels_XYZ: "distinct ls \<Longrightarrow> distinct (labels_XYZ ls)"
proof (induction ls)
  case Nil
  show ?case by (simp add: labels_XYZ_Nil)
next
  case (Cons l ls)
  then have d: "distinct (labels_XYZ ls)" and n: "l \<notin> set ls" by simp_all
  have "l @ s \<notin> set (labels_XYZ ls)" if "length s = 2" for s
    using n that by (auto simp: mem_labels_XYZ suffix_eq)
  then have "l @ ''_X'' \<notin> set (labels_XYZ ls)" "l @ ''_Y'' \<notin> set (labels_XYZ ls)"
    "l @ ''_Z'' \<notin> set (labels_XYZ ls)" by simp_all
  with d show ?case by (simp add: labels_XYZ_Cons)
qed

lemma frame_time_not_XYZ:
  "''Frame#'' \<notin> set (labels_XYZ ls)" "''Time'' \<notin> set (labels_XYZ ls)"
proof -
  have f: "''Frame#'' = ''Fram'' @ ''e#''" and t: "''Time'' = ''Ti'' @ ''me''" by simp_all
  have "l @ s \<noteq> ''Frame#''" "l @ s \<noteq> ''Time''"
    if "s = ''_X'' \<or> s = ''_Y'' \<or> s = ''_Z''" for l s
    unfolding f t using that by (auto simp: suffix_eq)
  then show "''Frame#'' \<notin> set (labels_XYZ ls)" "''Time'' \<notin> set (labels_XYZ ls)"
    by (auto simp: mem_labels_XYZ)
qed

lemma pad_row_id: "length r = n \<Longrightarrow> pad_row n r = r"
  by (simp add: pad_row_def)

lemma read_data_df_frames:
  assumes "distinct names" and "list_all (\<lambda>r. length r = length names) frames"
    and "lines_after 5 f = frames"
  shows "read_data_df names f = Inr \<lparr>columns = names, rows = frames\<rparr>"
proof (cases frames)
  case Nil
  with assms show ?thesis by (simp add: read_data_df_def)
next
  case (Cons r0 rs)
  with assms(2) have all: "\<forall>r\<in>set (r0 # rs). length r = length names"
    by (simp add: list_all_iff)
  then have "\<not> list_ex (\<lambda>r. max (length names) (length r0) < length r) rs"
    by (auto simp: list_ex_iff)
  moreover have "map (pad_row (length names)) (r0 # rs) = r0 # rs"
    using all by (intro map_idI pad_row_id) blast
  ultimately show ?thesis
    using assms(1,3) Cons by (simp add: read_data_df_def)
qed

lemma parse_standard_layout:
  assumes meta: "keys \<noteq> []" "vals \<noteq> []" "length vals \<le> length keys"
    and labels: "distinct labels" "[] \<notin> set labels" "''Frame#'' \<notin> set labels"
       "''Time'' \<notin> set labels" "list_all (\<lambda>l. take 9 l \<noteq> ''Unnamed: '') labels"
    and frames: "list_all (\<lambda>r. length r = 2 + 3 * length labels) frames"
       "filter (\<lambda>l. l \<noteq> []) rest = frames"
  shows "df_from_trc (banner # keys # vals
            # (''Frame#'' # ''Time'' # concat (map (\<lambda>l. [l, [], []]) labels)) # sub # rest)
          = Inr (zip keys (pad_row (length keys) vals),
                 \<lparr>columns = labels_XYZ labels, rows = map (drop 2) frames\<rparr>)"
proof -
  let ?hdr = "''Frame#'' # ''Time'' # concat (map (\<lambda>l. [l, [], []]) labels)"
  let ?f = "banner # keys # vals # ?hdr # sub # rest"
  let ?names = "[''Frame#'', ''Time''] @ labels_XYZ labels"
  have h: "read_df_header ?f = Inr [keys, pad_row (length keys) vals]"
    using meta by (simp add: read_df_header_def lines_after_def)
  have hd: "header_of [keys, pad_row (length keys) vals] = Inr (zip keys (pad_row (length keys) vals))"
    by (simp add: header_of_def)
  have lab: "read_df_lab_columns ?f = Inr (header_names ?hdr)"
    by (simp add: read_df_lab_columns_def lines_after_def)
  have ls: "every3 (drop 2 (butlast (header_names ?hdr))) = labels"
    by (rule header_row_names [OF labels])
  have dn: "distinct ?names"
    using distinct_labels_XYZ [OF labels(1)] frame_time_not_XYZ [of labels] by simp
  have ln: "length ?names = 2 + 3 * length labels" by (simp add: length_labels_XYZ)
  have la: "lines_after 5 ?f = frames" using frames(2) by (simp add: lines_after_def)
  have fr: "list_all (\<lambda>r. length r = length ?names) frames"
    using frames(1) unfolding ln .
  have rd: "read_data_df ?names ?f = Inr \<lparr>columns = ?names, rows = frames\<rparr>"
    by (rule read_data_df_frames [OF dn fr la])
  have "df_from_trc ?f = Inr (zip keys (pad_row (length keys) vals),
      \<lparr>columns = drop 2 (columns \<lparr>columns = ?names, rows = frames\<rparr>),
       rows = map (drop 2) (rows \<lparr>columns = ?names, rows = frames\<rparr>)\<rparr>)"
    by (simp only: df_from_trc_def h hd lab ls rd Let_def sum.case)
  then show ?thesis by simp
qed

section \<open>The parsed table\<close>

text \<open>
  C3 (as amended). Let a file consist of the banner (row 1), the metadata keys and values
  (rows 2 and 3, not blank, no more values than keys), the column headers in row 4
  (\<open>Frame#\<close>, \<open>Time\<close>, then every marker label followed by two empty cells), the
  sub-labels in row 5 and, after them, one row of \<open>2 + 3N\<close> fields per frame, blank lines
  being allowed between them. When the \<open>N\<close> labels are non-empty, different from each
  other, from \<open>Frame#\<close> and from \<open>Time\<close>, and none begins with \<open>Unnamed: \<close>, the
  parser returns the metadata pairs and a table with exactly one row per frame, each of
  \<open>3N\<close> cells, the frame number and the time removed, under the columns
  \<open>l_X, l_Y, l_Z\<close> of the labels in the order of the header row.
\<close>

theorem df_from_trc_standard_layout:
  assumes "keys \<noteq> []" and "vals \<noteq> []" and "length vals \<le> length keys"
    and "distinct labels" and "[] \<notin> set labels" and "''Frame#'' \<notin> set labels"
    and "''Time'' \<notin> set labels" and "list_all (\<lambda>l. take 9 l \<noteq> ''Unnamed: '') labels"
    and "list_all (\<lambda>r. length r = 2 + 3 * length labels) frames"
    and "filter (\<lambda>l. l \<noteq> []) rest = frames"
  shows "df_from_trc (banner # keys # vals
            # (''Frame#'' # ''Time'' # concat (map (\<lambda>l. [l, [], []]) labels)) # sub # rest)
          = Inr (zip keys (pad_row (length keys) vals),
                 \<lparr>columns = labels_XYZ labels, rows = map (drop 2) frames\<rparr>)
       \<and> length (map (drop 2) frames) = length frames
       \<and> list_all (\<lambda>r. length r = 3 * length labels) (map (drop 2) frames)
       \<and> length (labels_XYZ labels) = 3 * length labels"
proof -
  have "list_all (\<lambda>r. length r = 3 * length labels) (map (drop 2) frames)"
    using assms(9) by (simp add: list_all_iff)
  with parse_standard_layout [OF assms] show ?thesis
    by (simp add: length_labels_XYZ)
qed

theorem df_from_trc_standard_layout_witness:
  "df_from_trc standard_file
     = Inr (zip trc_keys [''20'', ''20'', ''2'', ''2'', ''m'', ''20'', ''1'', ''2''],
            \<lparr>columns = [''A_X'', ''A_Y'', ''A_Z'', ''B_X'', ''B_Y'', ''B_Z''],
             rows = [[''0.1'', ''0.2'', ''0.3'', ''0.4'', ''0.5'', ''0.6''],
                     [''1.1'', ''1.2'', ''1.3'', ''1.4'', ''1.5'', ''1.6'']]\<rparr>)"
proof -
  let ?vals = "[''20'', ''20'', ''2'', ''2'', ''m'', ''20'', ''1'', ''2'']"
  let ?frames = "[[''1'', ''0.00'', ''0.1'', ''0.2'', ''0.3'', ''0.4'', ''0.5'', ''0.6''],
      [''2'', ''0.05'', ''1.1'', ''1.2'', ''1.3'', ''1.4'', ''1.5'', ''1.6'']]"
  let ?rest = "[[], [''1'', ''0.00'', ''0.1'', ''0.2'', ''0.3'', ''0.4'', ''0.5'', ''0.6''],
      [''2'', ''0.05'', ''1.1'', ''1.2'', ''1.3'', ''1.4'', ''1.5'', ''1.6'']]"
  have h1: "trc_keys \<noteq> []" by (simp add: trc_keys_def)
  have h2: "?vals \<noteq> []" by simp
  have h3: "length ?vals \<le> length trc_keys" by (simp add: trc_keys_def)
  have h4: "distinct [''A'', ''B'']" by simp
  have h5: "[] \<notin> set [''A'', ''B'']" by simp
  have h6: "''Frame#'' \<notin> set [''A'', ''B'']" by simp
  have h7: "''Time'' \<notin> set [''A'', ''B'']" by simp
  have h8: "list_all (\<lambda>l. take 9 l \<noteq> ''Unnamed: '') [''A'', ''B'']" by simp
  have h9: "list_all (\<lambda>r. length r = 2 + 3 * length [''A'', ''B'']) ?frames" by simp
  have h10: "filter (\<lambda>l. l \<noteq> []) ?rest = ?frames" by simp
  have f: "standard_file = trc_banner # trc_keys # ?vals
      # (''Frame#'' # ''Time'' # concat (map (\<lambda>l. [l, [], []]) [''A'', ''B'']))
      # [[], [], ''X1'', ''Y1'', ''Z1'', ''X2'', ''Y2'', ''Z2''] # ?rest"
    by (simp add: standard_file_def standard_rest_def)
  have p: "pad_row (length trc_keys) ?vals = ?vals"
    by (simp add: pad_row_def trc_keys_def)
  from df_from_trc_standard_layout [OF h1 h2 h3 h4 h5 h6 h7 h8 h9 h10,
      of trc_banner "[[], [], ''X1'', ''Y1'', ''Z1'', ''X2'', ''Y2'', ''Z2'']"]
  show ?thesis unfolding f p by (simp add: labels_XYZ_def)
qed

lemma header_names_one_marker:
  "header_names [''Frame#'', ''Time'', ''M'', [], []]
     = [''Frame#'', ''Time'', ''M'', ''Unnamed: 3'', ''Unnamed: 4'']"
proof -
  have u: "unnamed 0 [''Frame#'', ''Time'', ''M'', [], []]
     = [''Frame#'', ''Time'', ''M'', ''Unnamed: 3'', ''Unnamed: 4'']"
    by (simp add: str.simps digit_char_def)
  have "distinct (unnamed 0 [''Frame#'', ''Time'', ''M'', [], []])"
    unfolding u by simp
  then show ?thesis unfolding u [symmetric] by (rule header_names_distinct)
qed

text \<open>
  C3 as stated fails: with a blank row 4, the column headers in row 5 and the sub-labels in
  row 6, \<^verbatim>\<open>skiprows=5\<close> ends before the sub-labels, and they are read as a frame. A file
  of one frame gives a table of two rows.
\<close>

theorem spec_layout_reads_sublabels_as_frame:
  "df_from_trc spec_layout_file
     = Inr (zip trc_keys [''20'', ''20'', ''1'', ''1'', ''m'', ''20'', ''1'', ''1''],
            \<lparr>columns = [''M_X'', ''M_Y'', ''M_Z''],
             rows = [[''X1'', ''Y1'', ''Z1''], [''0.1'', ''0.2'', ''0.3'']]\<rparr>)"
proof -
  have h: "read_df_header spec_layout_file
      = Inr [trc_keys, [''20'', ''20'', ''1'', ''1'', ''m'', ''20'', ''1'', ''1'']]"
    by (simp add: read_df_header_def lines_after_def spec_layout_file_def trc_keys_def
        trc_banner_def pad_row_def)
  have l: "read_df_lab_columns spec_layout_file
      = Inr [''Frame#'', ''Time'', ''M'', ''Unnamed: 3'', ''Unnamed: 4'']"
    by (simp add: read_df_lab_columns_def lines_after_def spec_layout_file_def
        header_names_one_marker)
  have d: "read_data_df [''Frame#'', ''Time'', ''M_X'', ''M_Y'', ''M_Z''] spec_layout_file
      = Inr \<lparr>columns = [''Frame#'', ''Time'', ''M_X'', ''M_Y'', ''M_Z''],
             rows = [[[], [], ''X1'', ''Y1'', ''Z1''],
                     [''1'', ''0.00'', ''0.1'', ''0.2'', ''0.3'']]\<rparr>"
    by (simp add: read_data_df_def lines_after_def spec_layout_file_def pad_row_def)
  show ?thesis
    by (simp add: df_from_trc_def h l d header_of_def labels_XYZ_def)
qed

section \<open>The metadata rows\<close>

lemma df_from_trc_metadata:
  assumes "keys \<noteq> []" and "vals \<noteq> []" and "length vals \<le> length keys"
  shows "df_from_trc (banner # keys # vals # rest) =
     (case read_df_lab_columns ([] # [] # [] # rest) of
        Inl e \<Rightarrow> Inl e
      | Inr cols \<Rightarrow>
          (case read_data_df ([''Frame#'', ''Time''] @ labels_XYZ (every3 (drop 2 (butlast cols))))
                  ([] # [] # [] # rest) of
             Inl e \<Rightarrow> Inl e
           | Inr data_df \<Rightarrow>
               Inr (zip keys (pad_row (length keys) vals),
                    \<lparr>columns = drop 2 (columns data_df), rows = map (drop 2) (rows data_df)\<rparr>)))"
proof -
  let ?f = "banner # keys # vals # rest"
  have h: "read_df_header ?f = Inr [keys, pad_row (length keys) vals]"
    using assms by (simp add: read_df_header_def lines_after_def)
  have hd: "header_of [keys, pad_row (length keys) vals] = Inr (zip keys (pad_row (length keys) vals))"
    by (simp add: header_of_def)
  have l: "read_df_lab_columns ?f = read_df_lab_columns ([] # [] # [] # rest)"
    by (simp add: read_df_lab_columns_def lines_after_def)
  have d: "read_data_df names ?f = read_data_df names ([] # [] # [] # rest)" for names
    by (simp add: read_data_df_def lines_after_def)
  show ?thesis
    by (simp only: df_from_trc_def h hd l d Let_def sum.case)
qed

text \<open>
  C4 (as amended). The parser does not look into the metadata. When rows 2 and 3 are not
  blank and there are no more values than keys, the outcome (the table, or the exception
  of \<^verbatim>\<open>read_csv\<close>) is the same whatever keys and values the two rows hold, and the
  header returned with a table is the pairing of the two rows.
\<close>

theorem df_from_trc_ignores_metadata:
  assumes "keys \<noteq> []" and "vals \<noteq> []" and "length vals \<le> length keys"
    and "keys' \<noteq> []" and "vals' \<noteq> []" and "length vals' \<le> length keys'"
  shows "map_sum id snd (df_from_trc (banner # keys # vals # rest))
           = map_sum id snd (df_from_trc (banner # keys' # vals' # rest))
       \<and> map_sum id fst (df_from_trc (banner # keys # vals # rest))
           = map_sum id (\<lambda>r. zip keys (pad_row (length keys) vals))
               (df_from_trc (banner # keys # vals # rest))"
  unfolding df_from_trc_metadata [OF assms(1-3)] df_from_trc_metadata [OF assms(4-6)]
  by (simp split: sum.splits)

theorem df_from_trc_ignores_metadata_witness:
  "trc_keys \<noteq> [] \<and> [''20'', ''20'', ''2'', ''2'', ''m'', ''20'', ''1'', ''2''] \<noteq> []
   \<and> length [''20'', ''20'', ''2'', ''2'', ''m'', ''20'', ''1'', ''2''] \<le> length trc_keys
   \<and> [''Units''] \<noteq> [] \<and> [''m''] \<noteq> [] \<and> length [''m''] \<le> length [''Units'']
   \<and> map_sum id snd (df_from_trc standard_file)
       = map_sum id snd (df_from_trc (trc_banner # [''Units''] # [''m''] # standard_rest))
   \<and> map_sum id fst (df_from_trc standard_file)
       = map_sum id (\<lambda>r. zip trc_keys
             (pad_row (length trc_keys) [''20'', ''20'', ''2'', ''2'', ''m'', ''20'', ''1'', ''2'']))
           (df_from_trc standard_file)"
proof -
  have h1: "trc_keys \<noteq> []" by (simp add: trc_keys_def)
  have h2: "[''20'', ''20'', ''2'', ''2'', ''m'', ''20'', ''1'', ''2''] \<noteq> []" by simp
  have h3: "length [''20'', ''20'', ''2'', ''2'', ''m'', ''20'', ''1'', ''2''] \<le> length trc_keys"
    by (simp add: trc_keys_def)
  have h4: "[''Units''] \<noteq> []" and h5: "[''m''] \<noteq> []"
    and h6: "length [''m''] \<le> length [''Units'']" by simp_all
  from h1 h2 h3 h4 h5 h6
    df_from_trc_ignores_metadata [OF h1 h2 h3 h4 h5 h6, of trc_banner standard_rest]
  show ?thesis unfolding standard_file_def by (simp only: simp_thms)
qed

text \<open>
  C4 as stated fails: a file whose metadata lack six of the eight keys and announce five
  markers, while the header row and the frame hold one, is parsed without any exception.
\<close>

theorem odd_metadata_file_is_parsed:
  "df_from_trc odd_metadata_file
     = Inr ([(''DataRate'', ''20''), (''NumMarkers'', ''5'')],
            \<lparr>columns = [''M_X'', ''M_Y'', ''M_Z''], rows = [[''0.1'', ''0.2'', ''0.3'']]\<rparr>)"
proof -
  have h: "read_df_header odd_metadata_file = Inr [[''DataRate'', ''NumMarkers''], [''20'', ''5'']]"
    by (simp add: read_df_header_def lines_after_def odd_metadata_file_def trc_banner_def
        pad_row_def)
  have l: "read_df_lab_columns odd_metadata_file
      = Inr [''Frame#'', ''Time'', ''M'', ''Unnamed: 3'', ''Unnamed: 4'']"
    by (simp add: read_df_lab_columns_def lines_after_def odd_metadata_file_def
        header_names_one_marker)
  have d: "read_data_df [''Frame#'', ''Time'', ''M_X'', ''M_Y'', ''M_Z''] odd_metadata_file
      = Inr \<lparr>columns = [''Frame#'', ''Time'', ''M_X'', ''M_Y'', ''M_Z''],
             rows = [[''1'', ''0.00'', ''0.1'', ''0.2'', ''0.3'']]\<rparr>"
    by (simp add: read_data_df_def lines_after_def odd_metadata_file_def pad_row_def)
  show ?thesis
    by (simp add: df_from_trc_def h l d header_of_def labels_XYZ_def)
qed

end
